theory Spec2Isabelle
  imports Main "HOL-Library.Word"
begin

unbundle bit_operations_syntax

section \<open>Machine types\<close>

type_synonym u8 = "8 word"
type_synonym u16 = "16 word"
type_synonym u32 = "32 word"

text \<open>
  A C pointer \<open>char *\<close> is modelled as the memory it points into: byte \<open>i\<close> of
  \<open>buf\<close> is \<open>buf[i]\<close>. Pointer arithmetic \<open>&buf[k]\<close> is a shift of that view.
\<close>

type_synonym cbuf = "nat \<Rightarrow> u8"

definition cbuf_at :: "cbuf \<Rightarrow> nat \<Rightarrow> cbuf" where
  "cbuf_at b k = (\<lambda>i. b (k + i))"

definition cbuf_of :: "u8 list \<Rightarrow> cbuf" where
  "cbuf_of xs = (\<lambda>i. if i < length xs then xs ! i else 0)"

definition c_div :: "int \<Rightarrow> int \<Rightarrow> int" where
  "c_div a b = sgn a * sgn b * (\<bar>a\<bar> div \<bar>b\<bar>)"

section \<open>Endpoint register bits\<close>

text \<open>
  The bit masks come from the CMSIS device header \<open>stm32f10x.h\<close>, which the driver
  includes and which is not among the repository's sources; the values are those of
  the STM32F10x reference manual (USB_EPnR, USB_ISTR, USB_DADDR).
\<close>

definition USB_EP0R_STAT_TX :: u32 where "USB_EP0R_STAT_TX = 0x0030"
definition USB_EP0R_STAT_TX_0 :: u32 where "USB_EP0R_STAT_TX_0 = 0x0010"
definition USB_EP0R_STAT_TX_1 :: u32 where "USB_EP0R_STAT_TX_1 = 0x0020"
definition USB_EP0R_DTOG_TX :: u32 where "USB_EP0R_DTOG_TX = 0x0040"
definition USB_EP0R_CTR_TX :: u32 where "USB_EP0R_CTR_TX = 0x0080"
definition USB_EP0R_EP_TYPE_0 :: u32 where "USB_EP0R_EP_TYPE_0 = 0x0200"
definition USB_EP0R_SETUP :: u32 where "USB_EP0R_SETUP = 0x0800"
definition USB_EP0R_STAT_RX :: u32 where "USB_EP0R_STAT_RX = 0x3000"
definition USB_EP0R_DTOG_RX :: u32 where "USB_EP0R_DTOG_RX = 0x4000"
definition USB_EP0R_CTR_RX :: u32 where "USB_EP0R_CTR_RX = 0x8000"
definition USB_ISTR_CTR :: u32 where "USB_ISTR_CTR = 0x8000"
definition USB_ISTR_RESET :: u32 where "USB_ISTR_RESET = 0x0400"
definition USB_DADDR_EF :: u32 where "USB_DADDR_EF = 0x80"

lemmas usb_bits =
  USB_EP0R_STAT_TX_def USB_EP0R_STAT_TX_0_def USB_EP0R_STAT_TX_1_def
  USB_EP0R_DTOG_TX_def USB_EP0R_CTR_TX_def USB_EP0R_EP_TYPE_0_def USB_EP0R_SETUP_def
  USB_EP0R_STAT_RX_def USB_EP0R_DTOG_RX_def USB_EP0R_CTR_RX_def
  USB_ISTR_CTR_def USB_ISTR_RESET_def USB_DADDR_EF_def

definition EP_TOGGLE_TX :: u32 where
  "EP_TOGGLE_TX = (USB_EP0R_DTOG_RX OR USB_EP0R_DTOG_TX OR USB_EP0R_STAT_RX)"

definition EP_TOGGLE_RX :: u32 where
  "EP_TOGGLE_RX = (USB_EP0R_DTOG_RX OR USB_EP0R_DTOG_TX OR USB_EP0R_STAT_TX)"

definition EP_TOGGLE_ALL :: u32 where
  "EP_TOGGLE_ALL =
     (USB_EP0R_DTOG_RX OR USB_EP0R_DTOG_TX OR USB_EP0R_STAT_TX OR USB_EP0R_STAT_RX)"

lemmas ep_toggles = EP_TOGGLE_TX_def EP_TOGGLE_RX_def EP_TOGGLE_ALL_def

text \<open>The four encodings of a 2-bit status field, in place for TX (bits 5:4).\<close>

definition STAT_TX_DISABLED :: u32 where "STAT_TX_DISABLED = 0x0000"
definition STAT_TX_STALL :: u32 where "STAT_TX_STALL = 0x0010"
definition STAT_TX_NAK :: u32 where "STAT_TX_NAK = 0x0020"
definition STAT_TX_VALID :: u32 where "STAT_TX_VALID = 0x0030"
definition STAT_RX_VALID :: u32 where "STAT_RX_VALID = 0x3000"

lemmas stat_codes =
  STAT_TX_DISABLED_def STAT_TX_STALL_def STAT_TX_NAK_def STAT_TX_VALID_def
  STAT_RX_VALID_def

section \<open>Register values computed by the endpoint operations\<close>

text \<open>
  Each operation of \<open>usb.c\<close> reads \<open>USB->EPR[ep]\<close> into \<open>val\<close>, edits \<open>val\<close> and
  writes it back. The edit is the pure function from the value read to the value
  written; the statements are kept one per \<open>let\<close>.
\<close>

definition endpoint_set_rx_ready_val :: "u32 \<Rightarrow> u32" where
  "endpoint_set_rx_ready_val v0 =
     (let val = v0 AND NOT USB_EP0R_CTR_RX;
          val = val OR USB_EP0R_CTR_TX;
          val = val AND NOT EP_TOGGLE_RX;
          val = val XOR USB_EP0R_STAT_RX
      in val)"

definition endpoint_clear_rx_val :: "u32 \<Rightarrow> u32" where
  "endpoint_clear_rx_val v0 =
     (let val = v0 AND NOT USB_EP0R_CTR_RX;
          val = val AND NOT EP_TOGGLE_ALL
      in val)"

definition endpoint_clear_tx_val :: "u32 \<Rightarrow> u32" where
  "endpoint_clear_tx_val v0 =
     (let val = v0 AND NOT USB_EP0R_CTR_TX;
          val = val OR USB_EP0R_CTR_RX;
          val = val AND NOT EP_TOGGLE_ALL
      in val)"

text \<open>
  In \<open>endpoint_stall\<close> the first mask is \<open>~USB_EP0R_CTR_RX | USB_EP0R_CTR_TX\<close>: the
  complement binds tighter than the disjunction.
\<close>

definition endpoint_stall_val :: "u32 \<Rightarrow> u32" where
  "endpoint_stall_val v0 =
     (let val = v0 AND (NOT USB_EP0R_CTR_RX OR USB_EP0R_CTR_TX);
          val = val AND NOT EP_TOGGLE_RX;
          val = val XOR USB_EP0R_STAT_TX_0
      in val)"

definition endpoint_set_tx_valid_val :: "u32 \<Rightarrow> u32" where
  "endpoint_set_tx_valid_val v0 =
     (let val = v0 AND NOT USB_EP0R_CTR_TX;
          val = val OR USB_EP0R_CTR_RX;
          val = val AND NOT EP_TOGGLE_TX;
          val = val XOR USB_EP0R_STAT_TX
      in val)"

definition endpoint_set_tx_nak_val :: "u32 \<Rightarrow> u32" where
  "endpoint_set_tx_nak_val v0 =
     (let val = v0 AND NOT USB_EP0R_CTR_TX;
          val = val OR USB_EP0R_CTR_RX;
          val = val AND NOT EP_TOGGLE_TX;
          val = val XOR USB_EP0R_STAT_TX_1
      in val)"

lemmas endpoint_vals =
  endpoint_set_rx_ready_val_def endpoint_clear_rx_val_def endpoint_clear_tx_val_def
  endpoint_stall_val_def endpoint_set_tx_valid_val_def endpoint_set_tx_nak_val_def

text \<open>
  Modelled from the spec: the endpoint register itself is hardware and not part of the
  sources. A write toggles the status and data-toggle bits where a one is written
  (section 4.3, "write-one-to-toggle"), clears a correct-transfer flag where a zero is
  written and leaves it alone where a one is written ("writing 0 would clear it"),
  cannot change the read-only SETUP bit, and stores the type, kind and address bits.
\<close>

definition epr_hw_write :: "u32 \<Rightarrow> u32 \<Rightarrow> u32" where
  "epr_hw_write cur w =
     (((cur XOR w) AND EP_TOGGLE_ALL)
      OR (cur AND w AND (USB_EP0R_CTR_RX OR USB_EP0R_CTR_TX))
      OR (cur AND USB_EP0R_SETUP)
      OR (w AND 0x070F))"

section \<open>The circular queue of \<open>cqeue.c\<close>\<close>

text \<open>
  \<open>struct cqueue\<close>. The pointers \<open>buf\<close> and \<open>bp\<close> both hold the start of the
  caller's storage, which is the list \<open>buf\<close>; \<open>ip\<close>, \<open>op\<close> and \<open>limit\<close> are kept as
  offsets from it. \<open>size\<close> and \<open>count\<close> are C \<open>int\<close>s that only move between 0 and
  \<open>size\<close>, so they are integers here; \<open>toss\<close> is only ever incremented and is a 32-bit
  word, so that its increment wraps as the compiled code's does.
\<close>

record cqueue =
  buf :: "u8 list"
  ip :: nat
  op :: nat
  limit :: nat
  size_q :: int
  count :: int
  toss :: u32

definition cq_init :: "u8 list \<Rightarrow> int \<Rightarrow> cqueue" where
  "cq_init storage sz =
     \<lparr>buf = storage, ip = 0, op = 0, limit = nat sz, size_q = sz, count = 0, toss = 0\<rparr>"

definition cq_count :: "cqueue \<Rightarrow> int" where
  "cq_count qp = count qp"

definition cq_space :: "cqueue \<Rightarrow> int" where
  "cq_space qp = size_q qp - count qp"

text \<open>\<open>*(qp->ip)++ = ch\<close> stores the \<open>int\<close> argument truncated to a \<open>char\<close>.\<close>

definition cq_add :: "cqueue \<Rightarrow> int \<Rightarrow> cqueue" where
  "cq_add qp ch =
     (if count qp < size_q qp then
        let q1 = qp\<lparr>count := count qp + 1\<rparr>;
            q2 = q1\<lparr>buf := (buf q1)[ip q1 := word_of_int ch], ip := ip q1 + 1\<rparr>
        in if ip q2 \<ge> limit q2 then q2\<lparr>ip := 0\<rparr> else q2
      else qp\<lparr>toss := toss qp + 1\<rparr>)"

definition cq_toss :: "cqueue \<Rightarrow> u32" where
  "cq_toss qp = toss qp"

text \<open>
  \<open>cq_remove\<close> returns \<open>-1\<close> on an empty queue, otherwise the byte read, widened to
  \<open>int\<close>. Plain \<open>char\<close> is unsigned on the ARM target, so the byte is read with \<open>uint\<close>.
\<close>

definition cq_remove :: "cqueue \<Rightarrow> int \<times> cqueue" where
  "cq_remove qp =
     (if count qp < 1 then (- 1, qp)
      else
        let ch = uint (buf qp ! op qp);
            q1 = qp\<lparr>op := op qp + 1\<rparr>;
            q2 = (if op q1 \<ge> limit q1 then q1\<lparr>op := 0\<rparr> else q1);
            q3 = q2\<lparr>count := count q2 - 1\<rparr>
        in (ch, q3))"

subsection \<open>Sequences of calls\<close>

datatype cq_call = Add int | Remove

fun cq_step :: "cqueue \<Rightarrow> cq_call \<Rightarrow> cqueue" where
  "cq_step q (Add ch) = cq_add q ch"
| "cq_step q Remove = snd (cq_remove q)"

fun cq_run :: "cqueue \<Rightarrow> cq_call list \<Rightarrow> cqueue" where
  "cq_run q [] = q"
| "cq_run q (c # cs) = cq_run (cq_step q c) cs"

text \<open>
  The three tallies of a call sequence started in \<open>q\<close>: the pushes, the pops that found
  a byte, and the pushes that found the queue full.
\<close>

fun cq_pushes :: "cq_call list \<Rightarrow> nat" where
  "cq_pushes [] = 0"
| "cq_pushes (Add ch # cs) = Suc (cq_pushes cs)"
| "cq_pushes (Remove # cs) = cq_pushes cs"

fun cq_pops :: "cqueue \<Rightarrow> cq_call list \<Rightarrow> nat" where
  "cq_pops q [] = 0"
| "cq_pops q (Add ch # cs) = cq_pops (cq_add q ch) cs"
| "cq_pops q (Remove # cs) =
     (if count q < 1 then 0 else 1) + cq_pops (snd (cq_remove q)) cs"

fun cq_overflows :: "cqueue \<Rightarrow> cq_call list \<Rightarrow> nat" where
  "cq_overflows q [] = 0"
| "cq_overflows q (Add ch # cs) =
     (if count q < size_q q then 0 else 1) + cq_overflows (cq_add q ch) cs"
| "cq_overflows q (Remove # cs) = cq_overflows (snd (cq_remove q)) cs"

text \<open>Pushing a list of bytes, and popping \<open>n\<close> times collecting what is returned.\<close>

fun cq_add_all :: "cqueue \<Rightarrow> u8 list \<Rightarrow> cqueue" where
  "cq_add_all q [] = q"
| "cq_add_all q (x # xs) = cq_add_all (cq_add q (uint x)) xs"

fun cq_remove_n :: "nat \<Rightarrow> cqueue \<Rightarrow> int list \<times> cqueue" where
  "cq_remove_n 0 q = ([], q)"
| "cq_remove_n (Suc n) q =
     (let (ch, q1) = cq_remove q; (chs, q2) = cq_remove_n n q1 in (ch # chs, q2))"

text \<open>
  The unread bytes of a queue, oldest first, and the shape every queue built by
  \<open>cq_init\<close> over storage of the right length keeps.
\<close>

definition cq_contents :: "cqueue \<Rightarrow> u8 list" where
  "cq_contents q = map (\<lambda>i. buf q ! ((op q + i) mod limit q)) [0..<nat (count q)]"

definition cq_wf :: "cqueue \<Rightarrow> bool" where
  "cq_wf q \<longleftrightarrow>
     0 < size_q q \<and> limit q = nat (size_q q) \<and> length (buf q) = limit q \<and>
     0 \<le> count q \<and> count q \<le> size_q q \<and> op q < limit q \<and>
     ip q = (op q + nat (count q)) mod limit q"

section \<open>Device state\<close>

datatype usb_state = BOOT | INIT | CONFIGURED

datatype uart_state = DISABLED | ENABLED

datatype cp21_control = NONE | BAUD | CHARS

text \<open>
  \<open>panic\<close> prints and then loops forever: the code after it never runs. A copy longer
  than its destination array has no defined behaviour in C. Both end the model's run.
\<close>

datatype error = Panic string | Overrun string

text \<open>\<open>struct endpoint\<close>; the two buffer pointers are kept as packet-memory slots.\<close>

record endpoint =
  flags :: u8
  tx_buf :: nat
  rx_buf :: nat

definition F_RX_BUSY :: u8 where "F_RX_BUSY = 0x01"
definition F_TX_BUSY :: u8 where "F_TX_BUSY = 0x02"
definition F_TX_REM :: u8 where "F_TX_REM = 0x80"

definition EP0R :: nat where "EP0R = 0"
definition EP1R :: nat where "EP1R = 1"
definition EP_COUNT :: nat where "EP_COUNT = 8"
definition IN_BUF_SIZE :: int where "IN_BUF_SIZE = 256"
definition ENDPOINT_LIMIT :: int where "ENDPOINT_LIMIT = 64"
definition SETUP_BUF :: int where "SETUP_BUF = 10"
definition COUNT_RX_VALUE :: u32 where "COUNT_RX_VALUE = (0x8000 OR push_bit 10 1)"
definition EP0R_TX_BUF_INDEX :: u32 where "EP0R_TX_BUF_INDEX = 1"
definition EP0R_RX_BUF_INDEX :: u32 where "EP0R_RX_BUF_INDEX = 2"
definition EP1R_TX_BUF_INDEX :: u32 where "EP1R_TX_BUF_INDEX = 3"
definition EP1R_RX_BUF_INDEX :: u32 where "EP1R_RX_BUF_INDEX = 4"

text \<open>
  The globals of \<open>usb.c\<close> and \<open>usb_enum.c\<close> together with the USB peripheral.

  \<^item> \<open>EPR\<close>, \<open>CNTR\<close>, \<open>ISTR\<close>, \<open>DADDR\<close>, \<open>BTABLE\<close> are the registers of \<open>USB_TypeDef\<close>.
  \<^item> \<open>pma\<close> is the packet memory seen from the processor: slot \<open>i\<close> is the 32-bit
    aligned word at \<open>USB_RAM + 4 * i\<close>, of which the hardware implements the low 16
    bits. The linker script (not among the sources) places \<open>PMA_btable\<close> and \<open>PMA_buf\<close>
    at \<open>USB_RAM\<close>; the driver relies on it by reaching the same buffer-table entry
    both as \<open>PMA_btable[ep]\<close> and as \<open>((struct btable_entry *)USB_RAM)[ep]\<close>.
  \<^item> \<open>in_queue\<close> owns its storage \<open>in_buf\<close>.
  \<^item> \<open>tx_rem\<close> points into the sender's buffer; the model keeps the bytes it points at.
  \<^item> \<open>stack\<close> stands for the indeterminate contents of uninitialised local arrays
    (\<open>buf\<close> in \<open>ctr0\<close>, \<open>inbuf\<close> in \<open>data_ctr\<close>, \<open>xx\<close> in \<open>string_send\<close>).
  Debug output goes to a separate UART and is not part of the state.
\<close>

record usb_dev =
  usb_current_state :: usb_state
  uart_current_state :: uart_state
  EPR :: "nat \<Rightarrow> u32"
  CNTR :: u32
  ISTR :: u32
  DADDR :: u32
  BTABLE :: u32
  pma :: "nat \<Rightarrow> u16"
  ep_info :: "nat \<Rightarrow> endpoint"
  in_queue :: cqueue
  pending_address :: int
  tx_rem :: cbuf
  tx_rem_count :: int
  int_count :: int
  int_first :: int
  usb_inital_prompt_pending :: int
  cp21_control :: cp21_control
  cp21_baud :: "u8 list"
  cp21_chars :: "u8 list"
  stack :: cbuf

subsection \<open>Buffer table and packet memory\<close>

text \<open>
  \<open>struct btable_entry\<close> has four 32-bit fields, so entry \<open>ep\<close> occupies slots
  \<open>4 * ep\<close> to \<open>4 * ep + 3\<close>. A 32-bit read returns the 16 implemented bits, a write
  keeps the low 16 bits.
\<close>

definition bte_tx_addr :: "usb_dev \<Rightarrow> nat \<Rightarrow> u32" where
  "bte_tx_addr s ep = ucast (pma s (4 * ep))"

definition bte_tx_count :: "usb_dev \<Rightarrow> nat \<Rightarrow> u32" where
  "bte_tx_count s ep = ucast (pma s (4 * ep + 1))"

definition bte_rx_addr :: "usb_dev \<Rightarrow> nat \<Rightarrow> u32" where
  "bte_rx_addr s ep = ucast (pma s (4 * ep + 2))"

definition bte_rx_count :: "usb_dev \<Rightarrow> nat \<Rightarrow> u32" where
  "bte_rx_count s ep = ucast (pma s (4 * ep + 3))"

definition set_bte_tx_addr :: "usb_dev \<Rightarrow> nat \<Rightarrow> u32 \<Rightarrow> usb_dev" where
  "set_bte_tx_addr s ep v = s\<lparr>pma := (pma s)(4 * ep := ucast v)\<rparr>"

definition set_bte_tx_count :: "usb_dev \<Rightarrow> nat \<Rightarrow> u32 \<Rightarrow> usb_dev" where
  "set_bte_tx_count s ep v = s\<lparr>pma := (pma s)(4 * ep + 1 := ucast v)\<rparr>"

definition set_bte_rx_addr :: "usb_dev \<Rightarrow> nat \<Rightarrow> u32 \<Rightarrow> usb_dev" where
  "set_bte_rx_addr s ep v = s\<lparr>pma := (pma s)(4 * ep + 2 := ucast v)\<rparr>"

definition set_bte_rx_count :: "usb_dev \<Rightarrow> nat \<Rightarrow> u32 \<Rightarrow> usb_dev" where
  "set_bte_rx_count s ep v = s\<lparr>pma := (pma s)(4 * ep + 3 := ucast v)\<rparr>"

definition set_flags :: "usb_dev \<Rightarrow> nat \<Rightarrow> u8 \<Rightarrow> usb_dev" where
  "set_flags s ep f = s\<lparr>ep_info := (ep_info s)(ep := (ep_info s ep)\<lparr>flags := f\<rparr>)\<rparr>"

text \<open>
  \<open>pma_copy_out\<close> and \<open>pma_copy_in\<close> move \<open>num = (count + 1) / 2\<close> halfwords. The
  pointer \<open>pp\<close> starts at \<open>USB_RAM + 2 * pma_off\<close>, which is slot \<open>2 * pma_off / 4\<close>;
  \<open>bp\<close> reads the buffer as little-endian halfwords. The recursion on \<open>num\<close> runs the
  iterations \<open>i = 0 .. num - 1\<close> in the loop's order.
\<close>

primrec copy_out_loop :: "nat \<Rightarrow> cbuf \<Rightarrow> nat \<Rightarrow> (nat \<Rightarrow> u16) \<Rightarrow> (nat \<Rightarrow> u16)" where
  "copy_out_loop base b 0 m = m"
| "copy_out_loop base b (Suc i) m =
     (copy_out_loop base b i m)
       (base + i := ucast (b (2 * i)) OR push_bit 8 (ucast (b (2 * i + 1))))"

definition pma_copy_out :: "usb_dev \<Rightarrow> u32 \<Rightarrow> cbuf \<Rightarrow> int \<Rightarrow> usb_dev" where
  "pma_copy_out s pma_off b cnt =
     (let num = c_div (cnt + 1) 2;
          base = (2 * unat pma_off) div 4
      in s\<lparr>pma := copy_out_loop base b (nat num) (pma s)\<rparr>)"

primrec copy_in_loop :: "nat \<Rightarrow> (nat \<Rightarrow> u16) \<Rightarrow> nat \<Rightarrow> cbuf \<Rightarrow> cbuf" where
  "copy_in_loop base m 0 b = b"
| "copy_in_loop base m (Suc i) b =
     (copy_in_loop base m i b)
       (2 * i := ucast (m (base + i)), 2 * i + 1 := ucast (drop_bit 8 (m (base + i))))"

definition pma_copy_in :: "usb_dev \<Rightarrow> u32 \<Rightarrow> cbuf \<Rightarrow> int \<Rightarrow> cbuf" where
  "pma_copy_in s pma_off b cnt =
     (let num = c_div (cnt + 1) 2;
          base = (2 * unat pma_off) div 4
      in copy_in_loop base (pma s) (nat num) b)"

definition pma_clear :: "usb_dev \<Rightarrow> usb_dev" where
  "pma_clear s =
     (let m = (\<lambda>i. if i < 256 then 0 else pma s i);
          m = m(254 := ucast (0xdead :: u32));
          m = m(255 := ucast (0xdeadbeef :: u32))
      in s\<lparr>pma := m\<rparr>)"

subsection \<open>Endpoint operations on the device\<close>

text \<open>The store \<open>USB->EPR[ep] = val\<close>, as the hardware takes it.\<close>

definition epr_store :: "usb_dev \<Rightarrow> nat \<Rightarrow> u32 \<Rightarrow> usb_dev" where
  "epr_store s ep val = s\<lparr>EPR := (EPR s)(ep := epr_hw_write (EPR s ep) val)\<rparr>"

definition endpoint_set_rx_ready :: "usb_dev \<Rightarrow> nat \<Rightarrow> usb_dev" where
  "endpoint_set_rx_ready s ep = epr_store s ep (endpoint_set_rx_ready_val (EPR s ep))"

definition endpoint_clear_rx :: "usb_dev \<Rightarrow> nat \<Rightarrow> usb_dev" where
  "endpoint_clear_rx s ep = epr_store s ep (endpoint_clear_rx_val (EPR s ep))"

definition endpoint_clear_tx :: "usb_dev \<Rightarrow> nat \<Rightarrow> usb_dev" where
  "endpoint_clear_tx s ep = epr_store s ep (endpoint_clear_tx_val (EPR s ep))"

definition endpoint_stall :: "usb_dev \<Rightarrow> nat \<Rightarrow> usb_dev" where
  "endpoint_stall s ep = epr_store s ep (endpoint_stall_val (EPR s ep))"

definition endpoint_set_tx_valid :: "usb_dev \<Rightarrow> nat \<Rightarrow> usb_dev" where
  "endpoint_set_tx_valid s ep = epr_store s ep (endpoint_set_tx_valid_val (EPR s ep))"

definition endpoint_set_tx_nak :: "usb_dev \<Rightarrow> nat \<Rightarrow> usb_dev" where
  "endpoint_set_tx_nak s ep = epr_store s ep (endpoint_set_tx_nak_val (EPR s ep))"

definition endpoint_recv_ready :: "usb_dev \<Rightarrow> nat \<Rightarrow> usb_dev" where
  "endpoint_recv_ready s ep =
     (let s1 = set_bte_rx_count s ep (bte_rx_count s ep AND NOT 0x3ff)
      in endpoint_set_rx_ready s1 ep)"

definition usb_pend_address :: "usb_dev \<Rightarrow> int \<Rightarrow> usb_dev" where
  "usb_pend_address s addr = s\<lparr>pending_address := addr\<rparr>"

text \<open>The \<open>set_address\<close> of \<open>usb.c\<close>, which writes the address register.\<close>

definition set_address :: "usb_dev \<Rightarrow> int \<Rightarrow> usb_dev" where
  "set_address s addr = s\<lparr>DADDR := USB_DADDR_EF OR word_of_int (addr AND 0x7f)\<rparr>"

definition usb_endpoint_send :: "usb_dev \<Rightarrow> nat \<Rightarrow> cbuf \<Rightarrow> int \<Rightarrow> usb_dev" where
  "usb_endpoint_send s ep b cnt =
     (if cnt \<le> ENDPOINT_LIMIT then
        let s1 = set_bte_tx_count s ep (word_of_int cnt);
            s2 = pma_copy_out s1 (bte_tx_addr s1 ep) b cnt
        in endpoint_set_tx_valid s2 ep
      else
        let s1 = s\<lparr>tx_rem := cbuf_at b (nat ENDPOINT_LIMIT)\<rparr>;
            s2 = s1\<lparr>tx_rem_count := cnt - ENDPOINT_LIMIT\<rparr>;
            s3 = set_flags s2 ep (flags (ep_info s2 ep) OR F_TX_REM);
            s4 = set_bte_tx_count s3 ep (word_of_int ENDPOINT_LIMIT);
            s5 = pma_copy_out s4 (bte_tx_addr s4 ep) b ENDPOINT_LIMIT
        in endpoint_set_tx_valid s5 ep)"

definition usb_endpoint_send_zlp :: "usb_dev \<Rightarrow> nat \<Rightarrow> usb_dev" where
  "usb_endpoint_send_zlp s ep =
     (let s1 = set_bte_tx_count s ep 0 in endpoint_set_tx_valid s1 ep)"

definition usb_endpoint_recv :: "usb_dev \<Rightarrow> nat \<Rightarrow> cbuf \<Rightarrow> int \<times> cbuf" where
  "usb_endpoint_recv s ep b =
     (let cnt = uint (bte_rx_count s ep AND 0x3ff)
      in (cnt, pma_copy_in s (bte_rx_addr s ep) b cnt))"

definition endpoint_init :: "usb_dev \<Rightarrow> usb_dev" where
  "endpoint_init s =
     (let s = fold (\<lambda>ep s. epr_store s ep 0) [0..<EP_COUNT] s;
          s = epr_store s EP0R (USB_EP0R_EP_TYPE_0 OR 0);
          s = epr_store s EP1R 1;
          s = set_bte_tx_addr s EP0R (EP0R_TX_BUF_INDEX * 64);
          s = set_bte_tx_count s EP0R 0;
          s = set_bte_rx_addr s EP0R (EP0R_RX_BUF_INDEX * 64);
          s = set_bte_rx_count s EP0R COUNT_RX_VALUE;
          s = endpoint_set_rx_ready s EP0R;
          s = endpoint_set_tx_nak s EP0R;
          s = set_bte_tx_addr s EP1R (EP1R_TX_BUF_INDEX * 64);
          s = set_bte_tx_count s EP1R 0;
          s = set_bte_rx_addr s EP1R (EP1R_RX_BUF_INDEX * 64);
          s = set_bte_rx_count s EP1R COUNT_RX_VALUE;
          s = endpoint_set_rx_ready s EP1R;
          s = endpoint_set_tx_nak s EP1R;
          s = s\<lparr>ep_info := (ep_info s)(EP0R := \<lparr>flags = 0, tx_buf = 32 * 1, rx_buf = 32 * 2\<rparr>)\<rparr>;
          s = s\<lparr>ep_info := (ep_info s)(EP1R := \<lparr>flags = 0, tx_buf = 32 * 3, rx_buf = 32 * 4\<rparr>)\<rparr>
      in s)"

definition reset :: "usb_dev \<Rightarrow> usb_dev" where
  "reset s = set_address (endpoint_init s) 0"

definition hw_init :: "usb_dev \<Rightarrow> usb_dev" where
  "hw_init s =
     (let s = s\<lparr>CNTR := 0\<rparr>;
          s = s\<lparr>ISTR := 0\<rparr>;
          s = s\<lparr>DADDR := 0\<rparr>;
          s = s\<lparr>BTABLE := 0\<rparr>;
          s = pma_clear s;
          s = endpoint_init s;
          s = set_address s 0
      in s\<lparr>CNTR := USB_ISTR_CTR OR USB_ISTR_RESET\<rparr>)"

definition endpoint_rem :: "usb_dev \<Rightarrow> nat \<Rightarrow> usb_dev" where
  "endpoint_rem s ep =
     (let s1 = set_bte_tx_count s ep (word_of_int (tx_rem_count s));
          s2 = pma_copy_out s1 (bte_tx_addr s1 ep) (tx_rem s1) (tx_rem_count s1);
          s3 = endpoint_set_tx_valid s2 ep
      in set_flags s3 ep (flags (ep_info s3 ep) AND NOT F_TX_REM))"

text \<open>
  The statics of \<open>usb.c\<close> and \<open>usb_enum.c\<close> as their initialisers leave them, over
  given register and memory contents.
\<close>

definition boot :: "usb_dev \<Rightarrow> usb_dev" where
  "boot hw = hw\<lparr>usb_current_state := BOOT, uart_current_state := DISABLED,
     ep_info := (\<lambda>ep. \<lparr>flags = 0, tx_buf = 0, rx_buf = 0\<rparr>),
     in_queue := \<lparr>buf = [], ip = 0, op = 0, limit = 0, size_q = 0, count = 0, toss = 0\<rparr>,
     pending_address := 0, tx_rem := (\<lambda>i. 0), tx_rem_count := 0,
     int_count := 0, int_first := 1, usb_inital_prompt_pending := 0,
     cp21_control := NONE, cp21_baud := replicate 4 0, cp21_chars := replicate 6 0\<rparr>"

text \<open>
  \<open>usb_init\<close> up to and including \<open>usb_current_state = INIT\<close> (the pin setup before
  it touches only GPIO registers). What follows in \<open>usb_init\<close>, the enumeration wait
  and the terminal loop, polls while interrupts do the work, and never assigns
  \<open>usb_current_state\<close>.
\<close>

definition usb_init :: "usb_dev \<Rightarrow> usb_dev" where
  "usb_init s =
     (let s = s\<lparr>in_queue := cq_init (replicate (nat IN_BUF_SIZE) 0) IN_BUF_SIZE\<rparr>;
          s = hw_init s;
          s = reset s
      in s\<lparr>usb_current_state := INIT\<rparr>)"

section \<open>Enumeration and control requests (\<open>usb_enum.c\<close>)\<close>

definition my_device_desc :: "u8 list" where
  "my_device_desc =
     [0x12, 1, 0x00, 0x02, 0x00, 0x00, 0x00, 0x40,
      0xc4, 0x10, 0x60, 0xea, 0x00, 0x01, 1, 2, 3, 1]"

definition my_config_desc :: "u8 list" where
  "my_config_desc =
     [0x09, 2, 0x20, 0x00, 0x01, 0x01, 0x00, 0xC0, 0x32,
      0x09, 4, 0x00, 0x00, 2, 0xff, 0x00, 0x00, 0x02,
      0x07, 5, 1 OR 0x80, 2, 64, 0x00, 0x00,
      0x07, 5, 1, 2, 64, 0x00, 0x00]"

definition my_language_string_desc :: "u8 list" where
  "my_language_string_desc = [4, 3, 0x09, 0x04]"

definition part_number :: "u8 list" where "part_number = [2, 0]"
definition modem_status :: "u8 list" where "modem_status = [0, 0]"
definition cp21_status_response :: "u8 list" where "cp21_status_response = [0x00, 0x00]"

definition D_DESC :: int where "D_DESC = 1"
definition D_CONFIG :: int where "D_CONFIG = 2"
definition D_STRING :: int where "D_STRING = 3"
definition D_QUAL :: int where "D_QUAL = 6"

text \<open>
  The string table. Each entry is the text of the C literal, without its terminating
  NUL; none contains a NUL, so \<open>strlen\<close> is the length of the list.
\<close>

definition c_string :: "string \<Rightarrow> u8 list" where
  "c_string cs = map of_char cs"

definition my_strings :: "u8 list list" where
  "my_strings =
     [c_string ''---'', c_string ''ACME computers'', c_string ''Basic console port'',
      c_string ''1234'']"

definition strlen :: "u8 list \<Rightarrow> int" where
  "strlen str = int (length str)"

text \<open>
  \<open>struct setup\<close>, read through the cast \<open>(struct setup *)buf\<close> on the little-endian
  target (record \<open>setup_pkt\<close>). The fields \<open>value\<close>, \<open>index\<close> and \<open>length\<close> carry a suffix here.
\<close>

record setup_pkt =
  rtype :: u8
  request :: u8
  value_w :: u16
  index_w :: u16
  length_w :: u16

definition le16 :: "u8 \<Rightarrow> u8 \<Rightarrow> u16" where
  "le16 lo hi = (ucast lo OR push_bit 8 (ucast hi))"

definition setup_of :: "cbuf \<Rightarrow> setup_pkt" where
  "setup_of b =
     \<lparr>rtype = b 0, request = b 1, value_w = le16 (b 2) (b 3),
      index_w = le16 (b 4) (b 5), length_w = le16 (b 6) (b 7)\<rparr>"

definition tag_of :: "setup_pkt \<Rightarrow> int" where
  "tag_of sp = (push_bit 8 (uint (rtype sp)) OR uint (request sp))"

text \<open>
  The handlers return the new state and the \<open>int\<close> they return; \<open>None\<close> stands for the
  value of a handler that ends without a \<open>return\<close> statement.
\<close>

definition cp21_vendor :: "usb_dev \<Rightarrow> setup_pkt \<Rightarrow> int option \<times> usb_dev" where
  "cp21_vendor s sp = (None, usb_endpoint_send s 0 (cbuf_of part_number) 1)"

definition cp21_enable :: "usb_dev \<Rightarrow> setup_pkt \<Rightarrow> int option \<times> usb_dev" where
  "cp21_enable s sp =
     (let s1 = (if value_w sp = 1 then s\<lparr>uart_current_state := ENABLED\<rparr>
                else s\<lparr>uart_current_state := DISABLED\<rparr>)
      in (None, usb_endpoint_send_zlp s1 0))"

definition cp21_set_baud :: "usb_dev \<Rightarrow> setup_pkt \<Rightarrow> int option \<times> usb_dev" where
  "cp21_set_baud s sp =
     (let s1 = s\<lparr>cp21_control := BAUD\<rparr> in (None, usb_endpoint_send_zlp s1 0))"

definition cp21_set_chars :: "usb_dev \<Rightarrow> setup_pkt \<Rightarrow> int option \<times> usb_dev" where
  "cp21_set_chars s sp =
     (let s1 = s\<lparr>cp21_control := CHARS\<rparr> in (None, usb_endpoint_send_zlp s1 0))"

definition cp21_set_modem :: "usb_dev \<Rightarrow> setup_pkt \<Rightarrow> int option \<times> usb_dev" where
  "cp21_set_modem s sp =
     (let s1 = (if value_w sp AND 0x01 \<noteq> 0 then s\<lparr>usb_inital_prompt_pending := 1\<rparr> else s)
      in (Some 1, usb_endpoint_send_zlp s1 0))"

definition cp21_set_line :: "usb_dev \<Rightarrow> setup_pkt \<Rightarrow> int option \<times> usb_dev" where
  "cp21_set_line s sp = (None, usb_endpoint_send_zlp s 0)"

definition cp21_get_flow :: "usb_dev \<Rightarrow> setup_pkt \<Rightarrow> int option \<times> usb_dev" where
  "cp21_get_flow s sp = (Some 1, usb_endpoint_send_zlp s 0)"

definition cp21_get_modem :: "usb_dev \<Rightarrow> setup_pkt \<Rightarrow> int option \<times> usb_dev" where
  "cp21_get_modem s sp = (None, usb_endpoint_send s 0 (cbuf_of modem_status) 1)"

definition cp21_get_status :: "usb_dev \<Rightarrow> setup_pkt \<Rightarrow> int option \<times> usb_dev" where
  "cp21_get_status s sp =
     (Some 1, usb_endpoint_send s 0 (cbuf_of cp21_status_response)
                (int (length cp21_status_response)))"

text \<open>
  \<open>string_send\<close>. The local \<open>struct string_xx\<close> is seen as the 64 bytes it occupies:
  \<open>length\<close> at byte 0, \<open>type\<close> at byte 1 and the 16-bit \<open>buf[i]\<close> at bytes \<open>2 + 2 * i\<close>
  and \<open>3 + 2 * i\<close>, low byte first. The widening loop runs \<open>i = 0 .. n - 1\<close>.
\<close>

primrec string_widen :: "u8 list \<Rightarrow> nat \<Rightarrow> cbuf \<Rightarrow> cbuf" where
  "string_widen str 0 xx = xx"
| "string_widen str (Suc i) xx =
     (let w = (ucast (str ! i) :: u16)
      in (string_widen str i xx)
           (2 + 2 * i := ucast w, 3 + 2 * i := ucast (drop_bit 8 w)))"

definition string_send :: "usb_dev \<Rightarrow> int \<Rightarrow> error + (int \<times> usb_dev)" where
  "string_send s index =
     (if index = 0 then
        let len = int (length my_language_string_desc)
        in Inr (1, usb_endpoint_send s 0 (cbuf_of my_language_string_desc) len)
      else if index < 1 \<or> index > 3 then Inl (Panic ''No such string'')
      else
        let str = my_strings ! nat index;
            n = strlen str
        in if n > 31 then Inl (Panic ''String too big'')
           else
             let xx = stack s;
                 xx = xx(0 := word_of_int (2 + 2 * n));
                 xx = xx(1 := word_of_int D_STRING);
                 xx = string_widen str (nat n) xx;
                 len = 2 + 2 * n
             in Inr (3, usb_endpoint_send s 0 xx len))"

definition get_descriptor :: "usb_dev \<Rightarrow> setup_pkt \<Rightarrow> error + (int option \<times> usb_dev)" where
  "get_descriptor s sp =
     (let type = uint (drop_bit 8 (value_w sp));
          index = uint (value_w sp AND 0xff)
      in if type = D_DESC then
           Inr (Some 1, usb_endpoint_send s 0 (cbuf_of my_device_desc)
                          (int (length my_device_desc)))
         else if type = D_QUAL then Inr (Some 1, usb_endpoint_send_zlp s 0)
         else if type = D_CONFIG then
           let len = int (length my_config_desc);
               len = (if len > uint (length_w sp) then uint (length_w sp) else len)
           in if len < 64 then Inr (Some 1, usb_endpoint_send s 0 (cbuf_of my_config_desc) len)
              else Inr (Some 1, usb_endpoint_send s 0 (cbuf_of my_config_desc) len)
         else if type = D_STRING then
           (case string_send s index of
              Inl e \<Rightarrow> Inl e
            | Inr (len, s1) \<Rightarrow> Inr (Some len, s1))
         else Inr (Some 0, s))"

definition usb_class :: "usb_dev \<Rightarrow> setup_pkt \<Rightarrow> usb_dev" where
  "usb_class s sp = usb_endpoint_send_zlp s 0"

text \<open>The \<open>set_address\<close> of \<open>usb_enum.c\<close>, which handles the request.\<close>

definition set_address_req :: "usb_dev \<Rightarrow> setup_pkt \<Rightarrow> int option \<times> usb_dev" where
  "set_address_req s sp =
     (let s1 = usb_pend_address s (uint (value_w sp))
      in (Some 1, usb_endpoint_send_zlp s1 0))"

definition set_configuration :: "usb_dev \<Rightarrow> setup_pkt \<Rightarrow> int option \<times> usb_dev" where
  "set_configuration s sp =
     (let s1 = usb_endpoint_send_zlp s 0
      in (Some 1, s1\<lparr>usb_current_state := CONFIGURED\<rparr>))"

definition usb_setup :: "usb_dev \<Rightarrow> cbuf \<Rightarrow> int \<Rightarrow> error + (int option \<times> usb_dev)" where
  "usb_setup s b cnt =
     (if cnt = 0 then Inr (Some 0, s)
      else
        let sp = setup_of b
        in if rtype sp = 0x21 then Inr (Some 1, usb_class s sp)
           else
             let tag = tag_of sp;
                 s = s\<lparr>cp21_control := NONE\<rparr>
             in if tag = 0x8006 then get_descriptor s sp
                else if tag = 0x0005 then Inr (set_address_req s sp)
                else if tag = 0x0009 then Inr (set_configuration s sp)
                else if tag = 0xc0ff then Inr (cp21_vendor s sp)
                else if tag = 0x4100 then Inr (cp21_enable s sp)
                else if tag = 0x411e then Inr (cp21_set_baud s sp)
                else if tag = 0x4103 then Inr (cp21_set_line s sp)
                else if tag = 0x4119 then Inr (cp21_set_chars s sp)
                else if tag = 0xc114 then Inr (cp21_get_flow s sp)
                else if tag = 0xc108 then Inr (cp21_get_modem s sp)
                else if tag = 0x4107 then Inr (cp21_set_modem s sp)
                else if tag = 0xc110 then Inr (cp21_get_status s sp)
                else Inr (Some 0, s))"

text \<open>
  \<open>memcpy(dest, buf, count)\<close> into a fixed array: the first \<open>count\<close> bytes of the
  destination are replaced. \<open>usb_control\<close> does not compare \<open>count\<close> with the size of
  \<open>cp21_baud\<close> (4) or \<open>cp21_chars\<close> (6); a longer copy runs past the array.
\<close>

definition memcpy :: "u8 list \<Rightarrow> cbuf \<Rightarrow> nat \<Rightarrow> u8 list" where
  "memcpy dest src len = map src [0..<len] @ drop len dest"

definition usb_control :: "usb_dev \<Rightarrow> cbuf \<Rightarrow> int \<Rightarrow> error + (int \<times> usb_dev)" where
  "usb_control s b cnt =
     (if cp21_control s = BAUD then
        (if cnt < 0 \<or> cnt > int (length (cp21_baud s)) then Inl (Overrun ''cp21_baud'')
         else Inr (1, s\<lparr>cp21_baud := memcpy (cp21_baud s) b (nat cnt)\<rparr>))
      else if cp21_control s = CHARS then
        (if cnt < 0 \<or> cnt > int (length (cp21_chars s)) then Inl (Overrun ''cp21_chars'')
         else Inr (1, s\<lparr>cp21_chars := memcpy (cp21_chars s) b (nat cnt)\<rparr>))
      else Inr (1, usb_endpoint_send_zlp s 0))"

section \<open>Interrupt handling (\<open>usb.c\<close>)\<close>

text \<open>
  \<open>ctr0\<close>. The receive branch can leave the function early (\<open>count == 1\<close>); the flag in
  its result says so. The values \<open>rv\<close> of \<open>usb_setup\<close> and \<open>usb_control\<close> are dropped,
  as in the source.
\<close>

definition ctr0_rx :: "usb_dev \<Rightarrow> error + (bool \<times> usb_dev)" where
  "ctr0_rx s =
     (let cnt = uint (bte_rx_count s EP0R AND 0x3ff)
      in if cnt > SETUP_BUF then Inl (Panic ''ctr0 setup count'')
         else
           let is_setup = EPR s EP0R AND USB_EP0R_SETUP;
               s1 = endpoint_clear_tx s EP0R;
               (cnt, b) = usb_endpoint_recv s1 EP0R (stack s1);
               s2 = endpoint_recv_ready s1 EP0R
           in if cnt = 1 then Inr (True, s2)
              else if is_setup \<noteq> 0 then
                (case usb_setup s2 b cnt of Inl e \<Rightarrow> Inl e | Inr (rv, s3) \<Rightarrow> Inr (False, s3))
              else
                (case usb_control s2 b cnt of Inl e \<Rightarrow> Inl e | Inr (rv, s3) \<Rightarrow> Inr (False, s3)))"

definition ctr0_tx :: "usb_dev \<Rightarrow> usb_dev" where
  "ctr0_tx s =
     (let s1 = endpoint_clear_tx s EP0R
      in if pending_address s1 \<noteq> 0 then
           let s2 = set_address s1 (pending_address s1)
           in s2\<lparr>pending_address := 0\<rparr>
         else if flags (ep_info s1 EP0R) AND F_TX_REM \<noteq> 0 then endpoint_rem s1 EP0R
         else set_flags s1 EP0R (flags (ep_info s1 EP0R) AND NOT F_TX_BUSY))"

definition ctr0 :: "usb_dev \<Rightarrow> error + usb_dev" where
  "ctr0 s =
     (case (if EPR s EP0R AND USB_EP0R_CTR_RX \<noteq> 0 then ctr0_rx s else Inr (False, s)) of
        Inl e \<Rightarrow> Inl e
      | Inr (returned, s1) \<Rightarrow>
          if returned then Inr s1
          else if EPR s1 EP0R AND USB_EP0R_CTR_TX \<noteq> 0 then Inr (ctr0_tx s1)
          else Inr s1)"

text \<open>
  \<open>data_ctr\<close>. The receive loop offers each byte of \<open>inbuf\<close> to the queue, guarded by
  \<open>cq_space\<close>. \<open>inbuf\<close> has 64 bytes; a packet count above 64 would copy past it.
\<close>

fun data_ctr_enqueue :: "cqueue \<Rightarrow> u8 list \<Rightarrow> cqueue" where
  "data_ctr_enqueue q [] = q"
| "data_ctr_enqueue q (x # xs) =
     data_ctr_enqueue (if cq_space q > 0 then cq_add q (uint x) else q) xs"

definition data_ctr :: "usb_dev \<Rightarrow> nat \<Rightarrow> error + usb_dev" where
  "data_ctr s ep =
     (if EPR s ep AND USB_EP0R_CTR_TX \<noteq> 0 then
        let s1 = endpoint_clear_tx s ep
        in Inr (set_flags s1 ep (flags (ep_info s1 ep) AND NOT F_TX_BUSY))
      else if EPR s ep AND USB_EP0R_CTR_RX \<noteq> 0 then
        let s1 = endpoint_clear_rx s ep;
            cnt = uint (bte_rx_count s1 ep AND 0x3ff)
        in if cnt > 64 then Inl (Overrun ''inbuf'')
           else
             let inbuf = pma_copy_in s1 (bte_rx_addr s1 ep) (stack s1) cnt;
                 s2 = s1\<lparr>in_queue := data_ctr_enqueue (in_queue s1) (map inbuf [0..<nat cnt])\<rparr>
             in Inr (endpoint_recv_ready s2 ep)
      else Inr s)"

definition USB_LP_CAN1_RX0_IRQHandler :: "usb_dev \<Rightarrow> error + usb_dev" where
  "USB_LP_CAN1_RX0_IRQHandler s =
     (let s = (if int_first s \<noteq> 0 then
                 let c = int_count s;
                     s = s\<lparr>int_count := c + 1\<rparr>
                 in if c > 2000 then s\<lparr>int_first := 0, CNTR := 0\<rparr> else s
               else s);
          s = (if ISTR s AND USB_ISTR_RESET \<noteq> 0 then
                 let s = reset s in s\<lparr>ISTR := ISTR s AND NOT USB_ISTR_RESET\<rparr>
               else s)
      in if ISTR s AND USB_ISTR_CTR \<noteq> 0 then
           let ep = unat (ISTR s AND 0xf)
           in (case (if ep = 0 then ctr0 s else data_ctr s ep) of
                 Inl e \<Rightarrow> Inl e
               | Inr s1 \<Rightarrow> Inr (s1\<lparr>ISTR := ISTR s1 AND NOT USB_ISTR_CTR\<rparr>))
         else Inr s)"

section \<open>Sending from the main loop\<close>

text \<open>
  \<open>endpoint_send\<close> spins on \<open>F_TX_BUSY\<close>, which only an interrupt clears. Within one
  uninterrupted run the spin either falls through at once or never ends; \<open>None\<close> is
  the run that never returns.
\<close>

partial_function (option) tx_busy_wait :: "usb_dev \<Rightarrow> nat \<Rightarrow> usb_dev option" where
  "tx_busy_wait s ep =
     (if flags (ep_info s ep) AND F_TX_BUSY \<noteq> 0 then tx_busy_wait s ep else Some s)"

definition endpoint_send :: "usb_dev \<Rightarrow> nat \<Rightarrow> cbuf \<Rightarrow> int \<Rightarrow> usb_dev option" where
  "endpoint_send s ep b cnt =
     (if usb_current_state s \<noteq> CONFIGURED then Some s
      else if uart_current_state s \<noteq> ENABLED then Some s
      else
        (case tx_busy_wait s ep of
           None \<Rightarrow> None
         | Some s1 \<Rightarrow>
             let s2 = set_flags s1 ep (flags (ep_info s1 ep) OR F_TX_BUSY)
             in Some (usb_endpoint_send s2 ep b cnt)))"

text \<open>
  Modelled from the spec: what the peripheral puts on the bus for an IN transfer of
  endpoint \<open>ep\<close> is not code; it is the \<open>tx_count\<close> bytes of packet memory that
  start at \<open>tx_addr\<close> (the buffer-table entry of section 3), low byte of each word
  first.
\<close>

definition pma_byte :: "usb_dev \<Rightarrow> nat \<Rightarrow> nat \<Rightarrow> u8" where
  "pma_byte s base i =
     (let w = pma s (base + i div 2)
      in if even i then ucast w else ucast (drop_bit 8 w))"

definition tx_packet :: "usb_dev \<Rightarrow> nat \<Rightarrow> u8 list" where
  "tx_packet s ep =
     map (pma_byte s ((2 * unat (bte_tx_addr s ep)) div 4))
       [0..<unat (bte_tx_count s ep AND 0x3ff)]"

text \<open>
  A device for closed examples: every register, memory word and stack byte zero, and
  the statics as initialised.
\<close>

definition power_on :: usb_dev where
  "power_on = boot
     \<lparr>usb_current_state = BOOT, uart_current_state = DISABLED,
      EPR = (\<lambda>ep. 0), CNTR = 0, ISTR = 0, DADDR = 0, BTABLE = 0, pma = (\<lambda>i. 0),
      ep_info = (\<lambda>ep. \<lparr>flags = 0, tx_buf = 0, rx_buf = 0\<rparr>),
      in_queue = \<lparr>buf = [], ip = 0, op = 0, limit = 0, size_q = 0, count = 0, toss = 0\<rparr>,
      pending_address = 0, tx_rem = (\<lambda>i. 0), tx_rem_count = 0,
      int_count = 0, int_first = 0, usb_inital_prompt_pending = 0,
      cp21_control = NONE, cp21_baud = [], cp21_chars = [], stack = (\<lambda>i. 0)\<rparr>"

text \<open>
  Modelled from the spec: two hardware events, for closed examples. After receiving
  an 8-byte SETUP packet on endpoint 0 the peripheral has stored the packet in the
  receive buffer, its length in the low bits of \<open>rx_count\<close>, and has set CTR_RX and
  SETUP with both statuses NAK (here on the buffer table and endpoint type that
  \<open>endpoint_init\<close> sets up). After completing an IN transfer on endpoint \<open>ep\<close> it has
  set CTR_TX and the TX status NAK.
\<close>

definition with_setup_packet :: "u8 list \<Rightarrow> usb_dev \<Rightarrow> usb_dev" where
  "with_setup_packet pkt s =
     s\<lparr>EPR := (EPR s)(0 := 0xAA20),
       pma := copy_out_loop 64 (cbuf_of pkt) 4 ((pma s)(0 := 64, 2 := 128, 3 := 0x8408))\<rparr>"

definition with_tx_complete :: "nat \<Rightarrow> usb_dev \<Rightarrow> usb_dev" where
  "with_tx_complete ep s =
     s\<lparr>EPR := (EPR s)(ep := (EPR s ep AND NOT USB_EP0R_STAT_TX) OR STAT_TX_NAK
                              OR USB_EP0R_CTR_TX)\<rparr>"

text \<open>
  The string descriptor in the spec's words (section 4.5), for comparison with what
  \<open>string_send\<close> transmits: a length byte \<open>2 + 2 * strlen\<close>, the descriptor type, and
  each source character widened to a 16-bit code unit with zero high byte (low byte
  first on the wire).
\<close>

definition string_descriptor :: "u8 list \<Rightarrow> u8 list" where
  "string_descriptor str =
     [of_nat (2 + 2 * length str), 3] @ concat (map (\<lambda>c. [c, 0]) str)"

text \<open>
  Modelled from the spec: the bytes the peripheral has received for endpoint \<open>ep\<close>,
  read from packet memory as \<open>tx_packet\<close> reads the bytes to transmit; and the
  hardware event of a received bulk packet on endpoint 1, for closed examples.
\<close>

definition rx_packet :: "usb_dev \<Rightarrow> nat \<Rightarrow> u8 list" where
  "rx_packet s ep =
     map (pma_byte s ((2 * unat (bte_rx_addr s ep)) div 4))
       [0..<unat (bte_rx_count s ep AND 0x3ff)]"

definition with_bulk_packet :: "u8 list \<Rightarrow> usb_dev \<Rightarrow> usb_dev" where
  "with_bulk_packet pkt s =
     s\<lparr>EPR := (EPR s)(1 := 0xA021),
       pma := copy_out_loop 128 (cbuf_of pkt) ((length pkt + 1) div 2)
                ((pma s)(6 := 256, 7 := 0x8400 OR of_nat (length pkt)))\<rparr>"

section \<open>Properties of the endpoint register operations\<close>

text \<open>
  Equalities between bitwise expressions over a register value are settled bit by bit;
  the 32 positions are reached by halving the range.
\<close>

lemma all_less_split:
  "(\<forall>n<k + k. P n) \<longleftrightarrow> (\<forall>n<k. P n) \<and> (\<forall>n<k. P (k + n))" for k :: nat
proof -
  have "n < k + k \<longleftrightarrow> n < k \<or> (\<exists>m<k. n = k + m)" for n
    by (metis add_diff_inverse_nat nat_add_left_cancel_less trans_less_add1)
  then show ?thesis by (simp only:) blast
qed

lemma all_bits_32:
  "(\<forall>n<(32::nat). P n) \<longleftrightarrow> (\<forall>n<16. P n) \<and> (\<forall>n<16. P (16 + n))"
  "(\<forall>n<(16::nat). P n) \<longleftrightarrow> (\<forall>n<8. P n) \<and> (\<forall>n<8. P (8 + n))"
  "(\<forall>n<(8::nat). P n) \<longleftrightarrow> (\<forall>n<4. P n) \<and> (\<forall>n<4. P (4 + n))"
  "(\<forall>n<(4::nat). P n) \<longleftrightarrow> (\<forall>n<2. P n) \<and> (\<forall>n<2. P (2 + n))"
  "(\<forall>n<(2::nat). P n) \<longleftrightarrow> P 0 \<and> P 1"
proof -
  show "(\<forall>n<(32::nat). P n) \<longleftrightarrow> (\<forall>n<16. P n) \<and> (\<forall>n<16. P (16 + n))"
    using all_less_split[of 16 P] by simp
  show "(\<forall>n<(16::nat). P n) \<longleftrightarrow> (\<forall>n<8. P n) \<and> (\<forall>n<8. P (8 + n))"
    using all_less_split[of 8 P] by simp
  show "(\<forall>n<(8::nat). P n) \<longleftrightarrow> (\<forall>n<4. P n) \<and> (\<forall>n<4. P (4 + n))"
    using all_less_split[of 4 P] by simp
  show "(\<forall>n<(4::nat). P n) \<longleftrightarrow> (\<forall>n<2. P n) \<and> (\<forall>n<2. P (2 + n))"
    using all_less_split[of 2 P] by simp
  show "(\<forall>n<(2::nat). P n) \<longleftrightarrow> P 0 \<and> P 1"
    by (auto simp: less_2_cases_iff)
qed

text \<open>
  Under the toggle semantics the three operations that clear the other status field
  with \<open>EP_TOGGLE_TX\<close> or \<open>EP_TOGGLE_RX\<close> before the exclusive-or reach their target
  from every register value.
\<close>

lemma endpoint_set_rx_ready_reaches_VALID:
  "epr_hw_write v (endpoint_set_rx_ready_val v) AND USB_EP0R_STAT_RX = STAT_RX_VALID"
  unfolding epr_hw_write_def endpoint_vals usb_bits ep_toggles stat_codes Let_def
  apply (simp add: bit_eq_iff bit_and_iff bit_or_iff bit_xor_iff bit_not_iff)
  apply (simp only: all_bits_32)
  apply simp
  done

lemma endpoint_set_tx_valid_reaches_VALID:
  "epr_hw_write v (endpoint_set_tx_valid_val v) AND USB_EP0R_STAT_TX = STAT_TX_VALID"
  unfolding epr_hw_write_def endpoint_vals usb_bits ep_toggles stat_codes Let_def
  apply (simp add: bit_eq_iff bit_and_iff bit_or_iff bit_xor_iff bit_not_iff)
  apply (simp only: all_bits_32)
  apply simp
  done

lemma endpoint_set_tx_nak_reaches_NAK:
  "epr_hw_write v (endpoint_set_tx_nak_val v) AND USB_EP0R_STAT_TX = STAT_TX_NAK"
  unfolding epr_hw_write_def endpoint_vals usb_bits ep_toggles stat_codes Let_def
  apply (simp add: bit_eq_iff bit_and_iff bit_or_iff bit_xor_iff bit_not_iff)
  apply (simp only: all_bits_32)
  apply simp
  done

text \<open>
  \<open>endpoint_stall\<close> masks with \<open>EP_TOGGLE_RX\<close>, which clears the TX status bits it is
  about to toggle and keeps the RX status bits: the write flips bit 4 of the TX status
  whatever it was, and toggles the RX status to zero.
\<close>

lemma endpoint_stall_flips_bit:
  "epr_hw_write v (endpoint_stall_val v) AND USB_EP0R_STAT_TX =
     (v AND USB_EP0R_STAT_TX) XOR USB_EP0R_STAT_TX_0"
  unfolding epr_hw_write_def endpoint_vals usb_bits ep_toggles stat_codes Let_def
  apply (simp add: bit_eq_iff bit_and_iff bit_or_iff bit_xor_iff bit_not_iff)
  apply (simp only: all_bits_32)
  apply simp
  done

text \<open>
  Claim C1, at the register value \<open>endpoint_init\<close> leaves in an endpoint (RX status
  VALID, TX status NAK, type CONTROL): \<open>endpoint_stall\<close> writes \<open>0x3210\<close>, after which
  the TX status is VALID, not STALL, and the RX status is DISABLED.
\<close>

theorem endpoint_stall_misses_STALL:
  "endpoint_stall_val 0x3220 = 0x3210
   \<and> epr_hw_write 0x3220 (endpoint_stall_val 0x3220) AND USB_EP0R_STAT_TX = STAT_TX_VALID
   \<and> epr_hw_write 0x3220 (endpoint_stall_val 0x3220) AND USB_EP0R_STAT_TX \<noteq> STAT_TX_STALL
   \<and> epr_hw_write 0x3220 (endpoint_stall_val 0x3220) AND USB_EP0R_STAT_RX = 0"
  by (simp add: epr_hw_write_def endpoint_vals usb_bits ep_toggles stat_codes)

section \<open>Properties of the queue\<close>

lemma mod_add_inj:
  fixes a i j n :: nat
  assumes "(a + i) mod n = (a + j) mod n" "i < n" "j < n"
  shows "i = j"
proof -
  have *: "x = y" if "x \<le> y" "(a + x) mod n = (a + y) mod n" "y < n" for x y
  proof -
    have "(a + y) mod n = (a + x) mod n" using that by simp
    then have "n dvd (a + y) - (a + x)" using that(1) by (subst (asm) mod_eq_dvd_iff_nat) simp_all
    then have "n dvd y - x" by simp
    moreover have "y - x < n" using that by simp
    ultimately have "y - x = 0" using dvd_imp_le by fastforce
    then show ?thesis using that by simp
  qed
  show ?thesis using *[of i j] *[of j i] assms by (cases "i \<le> j") auto
qed

lemma wrap_Suc: "a < n \<Longrightarrow> (if n \<le> Suc a then 0 else Suc a) = Suc a mod n" for a n :: nat
  using not_less_eq by force

lemma wrap_Suc_0: "a < n \<Longrightarrow> n \<le> Suc a \<Longrightarrow> Suc a mod n = 0" for a n :: nat
  using wrap_Suc[of a n] by simp

lemma wrap_Suc_1: "a < n \<Longrightarrow> \<not> n \<le> Suc a \<Longrightarrow> Suc a mod n = Suc a" for a n :: nat
  by simp

lemma cq_wf_init: "0 < C \<Longrightarrow> length b = nat C \<Longrightarrow> cq_wf (cq_init b C)"
  by (simp add: cq_wf_def cq_init_def)

lemma cq_contents_init: "cq_contents (cq_init b C) = []"
  by (simp add: cq_contents_def cq_init_def)

lemma cq_add_full: "\<not> count q < size_q q \<Longrightarrow> cq_add q ch = q\<lparr>toss := toss q + 1\<rparr>"
  by (simp add: cq_add_def)

lemma cq_add_fields:
  assumes "cq_wf q" "count q < size_q q"
  shows "buf (cq_add q ch) = (buf q)[ip q := word_of_int ch]"
    and "op (cq_add q ch) = op q" and "limit (cq_add q ch) = limit q"
    and "size_q (cq_add q ch) = size_q q" and "toss (cq_add q ch) = toss q"
    and "count (cq_add q ch) = count q + 1"
    and "ip (cq_add q ch) = Suc (ip q) mod limit q"
proof -
  from assms have "ip q < limit q" by (simp add: cq_wf_def)
  then show "ip (cq_add q ch) = Suc (ip q) mod limit q"
    using assms by (simp add: cq_add_def Let_def wrap_Suc_0)
qed (use assms in \<open>simp_all add: cq_add_def Let_def\<close>)

lemma cq_add_wf:
  assumes "cq_wf q" "count q < size_q q"
  shows "cq_wf (cq_add q ch)"
proof -
  have "Suc (ip q) mod limit q = (op q + nat (count q + 1)) mod limit q"
    using assms by (simp add: cq_wf_def nat_add_distrib mod_Suc_eq)
  with assms show ?thesis
    unfolding cq_wf_def[of "cq_add q ch"] cq_add_fields[OF assms]
    by (simp add: cq_wf_def)
qed

lemma cq_add_contents:
  assumes "cq_wf q" "count q < size_q q"
  shows "cq_contents (cq_add q ch) = cq_contents q @ [word_of_int ch]"
proof -
  let ?n = "nat (count q)"
  from assms have ip: "ip q = (op q + ?n) mod limit q" and lt: "ip q < limit q"
    and len: "length (buf q) = limit q" and n: "?n < limit q" "0 \<le> count q"
    by (auto simp: cq_wf_def)
  have diff: "False" if "i < ?n" "(op q + ?n) mod limit q = (op q + i) mod limit q" for i
    using mod_add_inj[of "op q" i "limit q" ?n] that n by auto
  have cnt: "nat (count q + 1) = Suc ?n" using n by simp
  show ?thesis
    unfolding cq_contents_def cq_add_fields[OF assms] cnt
    using lt len ip by (auto simp: nth_list_update dest: diff)
qed

lemma cq_remove_fields:
  assumes "cq_wf q" "1 \<le> count q"
  shows "fst (cq_remove q) = uint (hd (cq_contents q))"
    and "cq_wf (snd (cq_remove q))"
    and "cq_contents (snd (cq_remove q)) = tl (cq_contents q)"
    and "toss (snd (cq_remove q)) = toss q"
    and "size_q (snd (cq_remove q)) = size_q q"
    and "count (snd (cq_remove q)) = count q - 1"
proof -
  let ?n = "nat (count q)"
  let ?q' = "snd (cq_remove q)"
  from assms have lt: "op q < limit q" and n: "0 < ?n" "?n \<le> limit q"
    and ip: "ip q = (op q + ?n) mod limit q"
    by (auto simp: cq_wf_def)
  have opq: "op ?q' = Suc (op q) mod limit q"
    using assms lt by (simp add: cq_remove_def Let_def wrap_Suc_0)
  have rest: "buf ?q' = buf q" "limit ?q' = limit q" "ip ?q' = ip q"
    using assms by (simp_all add: cq_remove_def Let_def)
  show "toss ?q' = toss q" "size_q ?q' = size_q q" and cnt: "count ?q' = count q - 1"
    using assms by (simp_all add: cq_remove_def Let_def)
  have upt: "[0..<?n] = 0 # map Suc [0..<?n - 1]"
    using n by (metis One_nat_def Suc_pred map_Suc_upt upt_conv_Cons)
  show "fst (cq_remove q) = uint (hd (cq_contents q))"
    using assms lt by (simp add: cq_remove_def Let_def cq_contents_def upt)
  have shift: "(Suc (op q) mod limit q + i) mod limit q = (op q + Suc i) mod limit q" for i
    by (metis add_Suc add_Suc_right mod_Suc_eq mod_add_left_eq)
  show "cq_contents ?q' = tl (cq_contents q)"
    unfolding cq_contents_def opq rest cnt
    using assms by (simp add: upt shift nat_diff_distrib' comp_def)
  have "(Suc (op q) mod limit q + nat (count q - 1)) mod limit q = (op q + ?n) mod limit q"
    using n assms shift[of "?n - 1"] by (simp add: nat_diff_distrib')
  then show "cq_wf ?q'"
    using assms unfolding cq_wf_def[of ?q'] opq rest cnt
    by (simp add: cq_wf_def cq_remove_def Let_def)
qed


lemma cq_step_count:
  assumes "0 \<le> count q" "count q \<le> size_q q"
  shows "size_q (cq_step q c) = size_q q"
    and "0 \<le> count (cq_step q c)" and "count (cq_step q c) \<le> size_q q"
  using assms by (cases c; simp add: cq_add_def cq_remove_def Let_def)+

lemma cq_run_accounting:
  assumes "0 \<le> count q" "count q \<le> size_q q"
  shows "count (cq_run q cs) =
           count q + int (cq_pushes cs) - int (cq_pops q cs) - int (cq_overflows q cs)
         \<and> 0 \<le> count (cq_run q cs) \<and> count (cq_run q cs) \<le> size_q q
         \<and> size_q (cq_run q cs) = size_q q
         \<and> toss (cq_run q cs) = toss q + of_nat (cq_overflows q cs)"
  using assms
proof (induction cs arbitrary: q)
  case Nil
  then show ?case by simp
next
  case (Cons c cs)
  note step = cq_step_count[OF Cons.prems, of c]
  have ih: "count (cq_run (cq_step q c) cs) =
           count (cq_step q c) + int (cq_pushes cs) - int (cq_pops (cq_step q c) cs) - int (cq_overflows (cq_step q c) cs)
         \<and> 0 \<le> count (cq_run (cq_step q c) cs) \<and> count (cq_run (cq_step q c) cs) \<le> size_q q
         \<and> size_q (cq_run (cq_step q c) cs) = size_q q
         \<and> toss (cq_run (cq_step q c) cs) = toss (cq_step q c) + of_nat (cq_overflows (cq_step q c) cs)"
    using Cons.IH[of "cq_step q c"] step by simp
  show ?case
  proof (cases c)
    case (Add ch)
    with ih show ?thesis by (simp add: cq_add_def Let_def)
  next
    case Remove
    with ih show ?thesis by (simp add: cq_remove_def Let_def)
  qed
qed

text \<open>
  Claim C2. Started from an initialised queue of capacity \<open>C\<close>, after any sequence of
  \<open>cq_add\<close> and \<open>cq_remove\<close> calls the count is the number of pushes minus the pops
  that found a byte minus the pushes that found the queue full; the toss counter is
  that last number; the count never exceeds \<open>C\<close>; and a push onto the full queue
  changes the toss counter and nothing else (count, cursors and storage are the same
  record fields as before).
\<close>

theorem cq_count_accounting:
  assumes "0 \<le> C"
  shows "let q0 = cq_init b C; q = cq_run q0 cs in
           count q = int (cq_pushes cs) - int (cq_pops q0 cs) - int (cq_overflows q0 cs)
         \<and> toss q = of_nat (cq_overflows q0 cs)
         \<and> count q \<le> C
         \<and> (count q = C \<longrightarrow> cq_add q ch = q\<lparr>toss := toss q + 1\<rparr>)"
proof -
  have "0 \<le> count (cq_init b C)" "count (cq_init b C) \<le> size_q (cq_init b C)"
    using assms by (simp_all add: cq_init_def)
  from cq_run_accounting[OF this, of cs] show ?thesis
    by (simp add: Let_def cq_init_def cq_add_def)
qed

lemma cq_add_all_wf:
  assumes "cq_wf q"
  shows "cq_wf (cq_add_all q xs)
       \<and> size_q (cq_add_all q xs) = size_q q
       \<and> cq_contents (cq_add_all q xs) = cq_contents q @ take (nat (size_q q - count q)) xs
       \<and> count (cq_add_all q xs) = min (size_q q) (count q + int (length xs))
       \<and> toss (cq_add_all q xs) = toss q + of_nat (length xs - nat (size_q q - count q))"
  using assms
proof (induction xs arbitrary: q)
  case Nil
  then show ?case by (simp add: cq_wf_def)
next
  case (Cons x xs)
  show ?case
  proof (cases "count q < size_q q")
    case True
    note f = cq_add_fields[OF Cons.prems True, of "uint x"]
    have wf: "cq_wf (cq_add q (uint x))" by (rule cq_add_wf[OF Cons.prems True])
    have "nat (size_q q - count q) = Suc (nat (size_q q - (count q + 1)))"
      using True by linarith
    then have tk: "take (nat (size_q q - count q)) (x # xs) = x # take (nat (size_q q - (count q + 1))) xs"
      by simp
    have sub: "length (x # xs) - nat (size_q q - count q) = length xs - nat (size_q q - (count q + 1))"
      using True by (simp add: nat_diff_distrib')
    from Cons.IH[OF wf] True show ?thesis
      unfolding cq_add_all.simps f tk sub
      by (simp add: cq_add_contents[OF Cons.prems True])
  next
    case False
    then have full: "cq_add q (uint x) = q\<lparr>toss := toss q + 1\<rparr>" by (rule cq_add_full)
    have wf: "cq_wf (q\<lparr>toss := toss q + 1\<rparr>)" using Cons.prems by (simp add: cq_wf_def)
    have c: "cq_contents (q\<lparr>toss := toss q + 1\<rparr>) = cq_contents q" by (simp add: cq_contents_def)
    have eq: "count q = size_q q" "0 < size_q q"
      using False Cons.prems by (simp_all add: cq_wf_def)
    from Cons.IH[OF wf] show ?thesis
      unfolding cq_add_all.simps full c
      by (simp add: eq)
  qed
qed

lemma cq_remove_n_contents:
  assumes "cq_wf q" "int n \<le> count q"
  shows "fst (cq_remove_n n q) = map uint (take n (cq_contents q))"
  using assms
proof (induction n arbitrary: q)
  case 0
  then show ?case by simp
next
  case (Suc n)
  then have one: "1 \<le> count q" by simp
  note r = cq_remove_fields[OF Suc.prems(1) one]
  have ne: "cq_contents q \<noteq> []" using one by (simp add: cq_contents_def)
  have "fst (cq_remove_n n (snd (cq_remove q))) = map uint (take n (tl (cq_contents q)))"
    using Suc.IH[OF r(2)] Suc.prems(2) r(3,6) by simp
  then show ?case
    using r(1) ne by (cases "cq_contents q") (simp_all add: split_beta Let_def)
qed

lemma cq_add_all_zero:
  "size_q q \<le> count q \<Longrightarrow> cq_add_all q xs = q\<lparr>toss := toss q + of_nat (length xs)\<rparr>"
  by (induction xs arbitrary: q) (simp_all add: cq_add_def)

lemma cq_step_wf: "cq_wf q \<Longrightarrow> cq_wf (cq_step q c)"
proof (cases c)
  case (Add ch)
  assume wf: "cq_wf q"
  show ?thesis
  proof (cases "count q < size_q q")
    case True
    with wf Add show ?thesis by (simp add: cq_add_wf)
  next
    case False
    with wf Add show ?thesis by (simp add: cq_add_full cq_wf_def)
  qed
next
  case Remove
  assume wf: "cq_wf q"
  show ?thesis
  proof (cases "1 \<le> count q")
    case True
    with wf Remove show ?thesis by (simp add: cq_remove_fields(2))
  next
    case False
    with wf Remove show ?thesis by (simp add: cq_remove_def)
  qed
qed

lemma cq_run_wf: "cq_wf q \<Longrightarrow> cq_wf (cq_run q cs)"
  by (induction cs arbitrary: q) (simp_all add: cq_step_wf)

text \<open>
  The round trip and the overflow case from any well-formed empty queue, wherever its
  two cursors stand in the storage.
\<close>

lemma cq_round_trip_wf:
  assumes wf: "cq_wf q" and e: "count q = 0"
  shows "length bs \<le> nat (size_q q) \<Longrightarrow>
           fst (cq_remove_n (length bs) (cq_add_all q bs)) = map uint bs"
    and "length xs = nat (size_q q) \<Longrightarrow>
           count (cq_add_all q (xs @ ys)) = size_q q
         \<and> toss (cq_add_all q (xs @ ys)) = toss q + of_nat (length ys)
         \<and> fst (cq_remove_n (nat (size_q q)) (cq_add_all q (xs @ ys))) = map uint xs"
proof -
  from wf have pos: "0 < size_q q" by (simp add: cq_wf_def)
  have c: "cq_contents q = []" using e by (simp add: cq_contents_def)
  note a = cq_add_all_wf[OF wf, unfolded e c, simplified]
  show "fst (cq_remove_n (length bs) (cq_add_all q bs)) = map uint bs"
    if "length bs \<le> nat (size_q q)"
  proof -
    have "int (length bs) \<le> count (cq_add_all q bs)"
      using a[of bs] that pos by simp
    from cq_remove_n_contents[OF _ this] a[of bs] that show ?thesis by simp
  qed
  show "count (cq_add_all q (xs @ ys)) = size_q q
      \<and> toss (cq_add_all q (xs @ ys)) = toss q + of_nat (length ys)
      \<and> fst (cq_remove_n (nat (size_q q)) (cq_add_all q (xs @ ys))) = map uint xs"
    if "length xs = nat (size_q q)"
  proof -
    have "int (nat (size_q q)) \<le> count (cq_add_all q (xs @ ys))"
      using a[of "xs @ ys"] that pos by simp
    from cq_remove_n_contents[OF _ this] a[of "xs @ ys"] that pos show ?thesis by simp
  qed
qed

text \<open>A queue of capacity 0 holds nothing, whatever is called on it.\<close>

lemma cq_step_zero:
  "size_q q = 0 \<and> count q = 0 \<Longrightarrow> size_q (cq_step q c) = 0 \<and> count (cq_step q c) = 0"
  by (cases c) (simp_all add: cq_add_def cq_remove_def)

lemma cq_run_zero:
  "size_q q = 0 \<and> count q = 0 \<Longrightarrow> size_q (cq_run q cs) = 0 \<and> count (cq_run q cs) = 0"
proof (induction cs arbitrary: q)
  case Nil
  then show ?case by simp
next
  case (Cons c cs)
  from Cons.IH[OF cq_step_zero[OF Cons.prems]] show ?case by simp
qed

lemma cq_run_size: "size_q (cq_run q cs) = size_q q"
proof (induction cs arbitrary: q)
  case Nil
  then show ?case by simp
next
  case (Cons c cs)
  have "size_q (cq_step q c) = size_q q"
    by (cases c) (simp_all add: cq_add_def cq_remove_def Let_def)
  with Cons.IH[of "cq_step q c"] show ?case by simp
qed

text \<open>
  Claim C6. Take any queue the program can hold: initialised with capacity \<open>C\<close> over
  storage of \<open>C\<close> bytes and then used by any sequence of \<open>cq_add\<close> and \<open>cq_remove\<close>
  calls, so that its cursors may stand anywhere in the storage. If it is empty, then
  pushing at most \<open>C\<close> bytes and popping as many times returns the bytes in the order
  pushed; and pushing \<open>C\<close> bytes \<open>xs\<close> followed by further bytes \<open>ys\<close>, with no pop,
  leaves the count at \<open>C\<close>, adds the length of \<open>ys\<close> to the toss counter and retains
  exactly \<open>xs\<close>, which the next \<open>C\<close> pops return.
\<close>

theorem cq_fifo_round_trip:
  assumes "0 \<le> C" "length b = nat C"
    and "q = cq_run (cq_init b C) cs" "count q = 0"
  shows "(length bs \<le> nat C \<longrightarrow>
            fst (cq_remove_n (length bs) (cq_add_all q bs)) = map uint bs)
       \<and> (length xs = nat C \<longrightarrow>
            (let q' = cq_add_all q (xs @ ys) in
               count q' = C \<and> toss q' = toss q + of_nat (length ys)
               \<and> fst (cq_remove_n (nat C) q') = map uint xs))"
proof (cases "C = 0")
  case True
  have "size_q (cq_init b C) = 0 \<and> count (cq_init b C) = 0"
    using True by (simp add: cq_init_def)
  from cq_run_zero[OF this, of cs] have "size_q q \<le> count q" "count q = 0"
    using assms(3) by simp_all
  then show ?thesis using True by (simp add: cq_add_all_zero)
next
  case False
  with assms have pos: "0 < C" by simp
  have "cq_wf (cq_init b C)" using pos assms(2) by (rule cq_wf_init)
  then have wf: "cq_wf q" unfolding assms(3) by (rule cq_run_wf)
  have sz: "size_q q = C" unfolding assms(3) cq_run_size by (simp add: cq_init_def)
  from cq_round_trip_wf[OF wf assms(4), unfolded sz] show ?thesis
    by (simp add: Let_def)
qed

theorem cq_count_accounting_witness:
  "(0::int) \<le> 2 \<and>
   (let q0 = cq_init [0, 0] 2; q = cq_run q0 [Add 65, Remove, Remove, Add 66, Add 67, Add 68] in
      count q = 2 \<and> toss q = 1 \<and> cq_pushes [Add 65, Remove, Remove, Add 66, Add 67, Add 68] = 4
      \<and> cq_pops q0 [Add 65, Remove, Remove, Add 66, Add 67, Add 68] = 1
      \<and> cq_overflows q0 [Add 65, Remove, Remove, Add 66, Add 67, Add 68] = 1
      \<and> cq_add q 69 = q\<lparr>toss := toss q + 1\<rparr>)"
proof -
  let ?cs = "[Add 65, Remove, Remove, Add 66, Add 67, Add 68]"
  have h: "(0::int) \<le> 2" by simp
  have c: "count (cq_run (cq_init [0, 0] 2) ?cs) = 2" by code_simp
  have t: "toss (cq_run (cq_init [0, 0] 2) ?cs) = 1" by code_simp
  have p: "cq_pushes ?cs = 4" "cq_pops (cq_init [0, 0] 2) ?cs = 1"
    "cq_overflows (cq_init [0, 0] 2) ?cs = 1" by code_simp+
  from cq_count_accounting[OF h, of "[0, 0]" ?cs 69] c
  have "cq_add (cq_run (cq_init [0, 0] 2) ?cs) 69 =
        (cq_run (cq_init [0, 0] 2) ?cs)\<lparr>toss := toss (cq_run (cq_init [0, 0] 2) ?cs) + 1\<rparr>"
    unfolding Let_def by blast
  with h c t p show ?thesis unfolding Let_def by blast
qed

theorem cq_fifo_round_trip_witness:
  "(0::int) \<le> 3 \<and> length [0, 0, 0 :: u8] = nat 3
   \<and> count (cq_run (cq_init [0, 0, 0] 3) [Add 1, Add 2, Remove, Remove]) = 0
   \<and> ip (cq_run (cq_init [0, 0, 0] 3) [Add 1, Add 2, Remove, Remove]) = 2
   \<and> op (cq_run (cq_init [0, 0, 0] 3) [Add 1, Add 2, Remove, Remove]) = 2
   \<and> length [7, 9 :: u8] \<le> nat 3 \<and> length [7, 9, 11 :: u8] = nat 3
   \<and> (let q = cq_run (cq_init [0, 0, 0] 3) [Add 1, Add 2, Remove, Remove] in
        fst (cq_remove_n (length [7, 9 :: u8]) (cq_add_all q [7, 9])) = map uint [7, 9 :: u8]
      \<and> (let q' = cq_add_all q ([7, 9, 11] @ [13, 15]) in
           count q' = 3 \<and> toss q' = toss q + of_nat (length [13, 15 :: u8])
           \<and> fst (cq_remove_n (nat 3) q') = map uint [7, 9, 11 :: u8]))"
proof -
  let ?q = "cq_run (cq_init [0, 0, 0] 3) [Add 1, Add 2, Remove, Remove]"
  have h: "(0::int) \<le> 3" "length [0, 0, 0 :: u8] = nat 3" by simp_all
  have e: "count ?q = 0" by code_simp
  have cur: "ip ?q = 2" "op ?q = 2" by code_simp+
  have l: "length [7, 9 :: u8] \<le> nat 3" "length [7, 9, 11 :: u8] = nat 3" by simp_all
  from cq_fifo_round_trip[OF h refl e, of "[7, 9]" "[7, 9, 11]" "[13, 15]"] h e cur l
  show ?thesis unfolding Let_def by blast
qed
section \<open>What each operation leaves alone\<close>

text \<open>
  Every operation of the driver writes a few fields of the device and leaves the others
  as they are. The lemmas below record the untouched fields, operation by operation,
  so that later proofs follow a field through a sequence of calls without opening the
  calls.
\<close>

lemma epr_store_keeps [simp]:
  "usb_current_state (epr_store s ep v) = usb_current_state s"
  "uart_current_state (epr_store s ep v) = uart_current_state s"
  "CNTR (epr_store s ep v) = CNTR s"
  "ISTR (epr_store s ep v) = ISTR s"
  "DADDR (epr_store s ep v) = DADDR s"
  "BTABLE (epr_store s ep v) = BTABLE s"
  "pma (epr_store s ep v) = pma s"
  "ep_info (epr_store s ep v) = ep_info s"
  "in_queue (epr_store s ep v) = in_queue s"
  "pending_address (epr_store s ep v) = pending_address s"
  "tx_rem (epr_store s ep v) = tx_rem s"
  "tx_rem_count (epr_store s ep v) = tx_rem_count s"
  "int_count (epr_store s ep v) = int_count s"
  "int_first (epr_store s ep v) = int_first s"
  "usb_inital_prompt_pending (epr_store s ep v) = usb_inital_prompt_pending s"
  "cp21_control (epr_store s ep v) = cp21_control s"
  "cp21_baud (epr_store s ep v) = cp21_baud s"
  "cp21_chars (epr_store s ep v) = cp21_chars s"
  "stack (epr_store s ep v) = stack s"
  by (simp_all add: epr_store_def)

lemma set_bte_tx_addr_keeps [simp]:
  "usb_current_state (set_bte_tx_addr s ep v) = usb_current_state s"
  "uart_current_state (set_bte_tx_addr s ep v) = uart_current_state s"
  "EPR (set_bte_tx_addr s ep v) = EPR s"
  "CNTR (set_bte_tx_addr s ep v) = CNTR s"
  "ISTR (set_bte_tx_addr s ep v) = ISTR s"
  "DADDR (set_bte_tx_addr s ep v) = DADDR s"
  "BTABLE (set_bte_tx_addr s ep v) = BTABLE s"
  "ep_info (set_bte_tx_addr s ep v) = ep_info s"
  "in_queue (set_bte_tx_addr s ep v) = in_queue s"
  "pending_address (set_bte_tx_addr s ep v) = pending_address s"
  "tx_rem (set_bte_tx_addr s ep v) = tx_rem s"
  "tx_rem_count (set_bte_tx_addr s ep v) = tx_rem_count s"
  "int_count (set_bte_tx_addr s ep v) = int_count s"
  "int_first (set_bte_tx_addr s ep v) = int_first s"
  "usb_inital_prompt_pending (set_bte_tx_addr s ep v) = usb_inital_prompt_pending s"
  "cp21_control (set_bte_tx_addr s ep v) = cp21_control s"
  "cp21_baud (set_bte_tx_addr s ep v) = cp21_baud s"
  "cp21_chars (set_bte_tx_addr s ep v) = cp21_chars s"
  "stack (set_bte_tx_addr s ep v) = stack s"
  by (simp_all add: set_bte_tx_addr_def)

lemma set_bte_tx_count_keeps [simp]:
  "usb_current_state (set_bte_tx_count s ep v) = usb_current_state s"
  "uart_current_state (set_bte_tx_count s ep v) = uart_current_state s"
  "EPR (set_bte_tx_count s ep v) = EPR s"
  "CNTR (set_bte_tx_count s ep v) = CNTR s"
  "ISTR (set_bte_tx_count s ep v) = ISTR s"
  "DADDR (set_bte_tx_count s ep v) = DADDR s"
  "BTABLE (set_bte_tx_count s ep v) = BTABLE s"
  "ep_info (set_bte_tx_count s ep v) = ep_info s"
  "in_queue (set_bte_tx_count s ep v) = in_queue s"
  "pending_address (set_bte_tx_count s ep v) = pending_address s"
  "tx_rem (set_bte_tx_count s ep v) = tx_rem s"
  "tx_rem_count (set_bte_tx_count s ep v) = tx_rem_count s"
  "int_count (set_bte_tx_count s ep v) = int_count s"
  "int_first (set_bte_tx_count s ep v) = int_first s"
  "usb_inital_prompt_pending (set_bte_tx_count s ep v) = usb_inital_prompt_pending s"
  "cp21_control (set_bte_tx_count s ep v) = cp21_control s"
  "cp21_baud (set_bte_tx_count s ep v) = cp21_baud s"
  "cp21_chars (set_bte_tx_count s ep v) = cp21_chars s"
  "stack (set_bte_tx_count s ep v) = stack s"
  by (simp_all add: set_bte_tx_count_def)

lemma set_bte_rx_addr_keeps [simp]:
  "usb_current_state (set_bte_rx_addr s ep v) = usb_current_state s"
  "uart_current_state (set_bte_rx_addr s ep v) = uart_current_state s"
  "EPR (set_bte_rx_addr s ep v) = EPR s"
  "CNTR (set_bte_rx_addr s ep v) = CNTR s"
  "ISTR (set_bte_rx_addr s ep v) = ISTR s"
  "DADDR (set_bte_rx_addr s ep v) = DADDR s"
  "BTABLE (set_bte_rx_addr s ep v) = BTABLE s"
  "ep_info (set_bte_rx_addr s ep v) = ep_info s"
  "in_queue (set_bte_rx_addr s ep v) = in_queue s"
  "pending_address (set_bte_rx_addr s ep v) = pending_address s"
  "tx_rem (set_bte_rx_addr s ep v) = tx_rem s"
  "tx_rem_count (set_bte_rx_addr s ep v) = tx_rem_count s"
  "int_count (set_bte_rx_addr s ep v) = int_count s"
  "int_first (set_bte_rx_addr s ep v) = int_first s"
  "usb_inital_prompt_pending (set_bte_rx_addr s ep v) = usb_inital_prompt_pending s"
  "cp21_control (set_bte_rx_addr s ep v) = cp21_control s"
  "cp21_baud (set_bte_rx_addr s ep v) = cp21_baud s"
  "cp21_chars (set_bte_rx_addr s ep v) = cp21_chars s"
  "stack (set_bte_rx_addr s ep v) = stack s"
  by (simp_all add: set_bte_rx_addr_def)

lemma set_bte_rx_count_keeps [simp]:
  "usb_current_state (set_bte_rx_count s ep v) = usb_current_state s"
  "uart_current_state (set_bte_rx_count s ep v) = uart_current_state s"
  "EPR (set_bte_rx_count s ep v) = EPR s"
  "CNTR (set_bte_rx_count s ep v) = CNTR s"
  "ISTR (set_bte_rx_count s ep v) = ISTR s"
  "DADDR (set_bte_rx_count s ep v) = DADDR s"
  "BTABLE (set_bte_rx_count s ep v) = BTABLE s"
  "ep_info (set_bte_rx_count s ep v) = ep_info s"
  "in_queue (set_bte_rx_count s ep v) = in_queue s"
  "pending_address (set_bte_rx_count s ep v) = pending_address s"
  "tx_rem (set_bte_rx_count s ep v) = tx_rem s"
  "tx_rem_count (set_bte_rx_count s ep v) = tx_rem_count s"
  "int_count (set_bte_rx_count s ep v) = int_count s"
  "int_first (set_bte_rx_count s ep v) = int_first s"
  "usb_inital_prompt_pending (set_bte_rx_count s ep v) = usb_inital_prompt_pending s"
  "cp21_control (set_bte_rx_count s ep v) = cp21_control s"
  "cp21_baud (set_bte_rx_count s ep v) = cp21_baud s"
  "cp21_chars (set_bte_rx_count s ep v) = cp21_chars s"
  "stack (set_bte_rx_count s ep v) = stack s"
  by (simp_all add: set_bte_rx_count_def)

lemma set_flags_keeps [simp]:
  "usb_current_state (set_flags s ep f) = usb_current_state s"
  "uart_current_state (set_flags s ep f) = uart_current_state s"
  "EPR (set_flags s ep f) = EPR s"
  "CNTR (set_flags s ep f) = CNTR s"
  "ISTR (set_flags s ep f) = ISTR s"
  "DADDR (set_flags s ep f) = DADDR s"
  "BTABLE (set_flags s ep f) = BTABLE s"
  "pma (set_flags s ep f) = pma s"
  "in_queue (set_flags s ep f) = in_queue s"
  "pending_address (set_flags s ep f) = pending_address s"
  "tx_rem (set_flags s ep f) = tx_rem s"
  "tx_rem_count (set_flags s ep f) = tx_rem_count s"
  "int_count (set_flags s ep f) = int_count s"
  "int_first (set_flags s ep f) = int_first s"
  "usb_inital_prompt_pending (set_flags s ep f) = usb_inital_prompt_pending s"
  "cp21_control (set_flags s ep f) = cp21_control s"
  "cp21_baud (set_flags s ep f) = cp21_baud s"
  "cp21_chars (set_flags s ep f) = cp21_chars s"
  "stack (set_flags s ep f) = stack s"
  by (simp_all add: set_flags_def)

lemma pma_copy_out_keeps [simp]:
  "usb_current_state (pma_copy_out s off b cnt) = usb_current_state s"
  "uart_current_state (pma_copy_out s off b cnt) = uart_current_state s"
  "EPR (pma_copy_out s off b cnt) = EPR s"
  "CNTR (pma_copy_out s off b cnt) = CNTR s"
  "ISTR (pma_copy_out s off b cnt) = ISTR s"
  "DADDR (pma_copy_out s off b cnt) = DADDR s"
  "BTABLE (pma_copy_out s off b cnt) = BTABLE s"
  "ep_info (pma_copy_out s off b cnt) = ep_info s"
  "in_queue (pma_copy_out s off b cnt) = in_queue s"
  "pending_address (pma_copy_out s off b cnt) = pending_address s"
  "tx_rem (pma_copy_out s off b cnt) = tx_rem s"
  "tx_rem_count (pma_copy_out s off b cnt) = tx_rem_count s"
  "int_count (pma_copy_out s off b cnt) = int_count s"
  "int_first (pma_copy_out s off b cnt) = int_first s"
  "usb_inital_prompt_pending (pma_copy_out s off b cnt) = usb_inital_prompt_pending s"
  "cp21_control (pma_copy_out s off b cnt) = cp21_control s"
  "cp21_baud (pma_copy_out s off b cnt) = cp21_baud s"
  "cp21_chars (pma_copy_out s off b cnt) = cp21_chars s"
  "stack (pma_copy_out s off b cnt) = stack s"
  by (simp_all add: pma_copy_out_def Let_def)

lemma pma_clear_keeps [simp]:
  "usb_current_state (pma_clear s) = usb_current_state s"
  "uart_current_state (pma_clear s) = uart_current_state s"
  "EPR (pma_clear s) = EPR s"
  "CNTR (pma_clear s) = CNTR s"
  "ISTR (pma_clear s) = ISTR s"
  "DADDR (pma_clear s) = DADDR s"
  "BTABLE (pma_clear s) = BTABLE s"
  "ep_info (pma_clear s) = ep_info s"
  "in_queue (pma_clear s) = in_queue s"
  "pending_address (pma_clear s) = pending_address s"
  "tx_rem (pma_clear s) = tx_rem s"
  "tx_rem_count (pma_clear s) = tx_rem_count s"
  "int_count (pma_clear s) = int_count s"
  "int_first (pma_clear s) = int_first s"
  "usb_inital_prompt_pending (pma_clear s) = usb_inital_prompt_pending s"
  "cp21_control (pma_clear s) = cp21_control s"
  "cp21_baud (pma_clear s) = cp21_baud s"
  "cp21_chars (pma_clear s) = cp21_chars s"
  "stack (pma_clear s) = stack s"
  by (simp_all add: pma_clear_def Let_def)

lemma set_address_keeps [simp]:
  "usb_current_state (set_address s addr) = usb_current_state s"
  "uart_current_state (set_address s addr) = uart_current_state s"
  "EPR (set_address s addr) = EPR s"
  "CNTR (set_address s addr) = CNTR s"
  "ISTR (set_address s addr) = ISTR s"
  "BTABLE (set_address s addr) = BTABLE s"
  "pma (set_address s addr) = pma s"
  "ep_info (set_address s addr) = ep_info s"
  "in_queue (set_address s addr) = in_queue s"
  "pending_address (set_address s addr) = pending_address s"
  "tx_rem (set_address s addr) = tx_rem s"
  "tx_rem_count (set_address s addr) = tx_rem_count s"
  "int_count (set_address s addr) = int_count s"
  "int_first (set_address s addr) = int_first s"
  "usb_inital_prompt_pending (set_address s addr) = usb_inital_prompt_pending s"
  "cp21_control (set_address s addr) = cp21_control s"
  "cp21_baud (set_address s addr) = cp21_baud s"
  "cp21_chars (set_address s addr) = cp21_chars s"
  "stack (set_address s addr) = stack s"
  by (simp_all add: set_address_def)

lemma usb_pend_address_keeps [simp]:
  "usb_current_state (usb_pend_address s addr) = usb_current_state s"
  "uart_current_state (usb_pend_address s addr) = uart_current_state s"
  "EPR (usb_pend_address s addr) = EPR s"
  "CNTR (usb_pend_address s addr) = CNTR s"
  "ISTR (usb_pend_address s addr) = ISTR s"
  "DADDR (usb_pend_address s addr) = DADDR s"
  "BTABLE (usb_pend_address s addr) = BTABLE s"
  "pma (usb_pend_address s addr) = pma s"
  "ep_info (usb_pend_address s addr) = ep_info s"
  "in_queue (usb_pend_address s addr) = in_queue s"
  "tx_rem (usb_pend_address s addr) = tx_rem s"
  "tx_rem_count (usb_pend_address s addr) = tx_rem_count s"
  "int_count (usb_pend_address s addr) = int_count s"
  "int_first (usb_pend_address s addr) = int_first s"
  "usb_inital_prompt_pending (usb_pend_address s addr) = usb_inital_prompt_pending s"
  "cp21_control (usb_pend_address s addr) = cp21_control s"
  "cp21_baud (usb_pend_address s addr) = cp21_baud s"
  "cp21_chars (usb_pend_address s addr) = cp21_chars s"
  "stack (usb_pend_address s addr) = stack s"
  by (simp_all add: usb_pend_address_def)

lemma endpoint_set_rx_ready_keeps [simp]:
  "usb_current_state (endpoint_set_rx_ready s ep) = usb_current_state s"
  "uart_current_state (endpoint_set_rx_ready s ep) = uart_current_state s"
  "CNTR (endpoint_set_rx_ready s ep) = CNTR s"
  "ISTR (endpoint_set_rx_ready s ep) = ISTR s"
  "DADDR (endpoint_set_rx_ready s ep) = DADDR s"
  "BTABLE (endpoint_set_rx_ready s ep) = BTABLE s"
  "pma (endpoint_set_rx_ready s ep) = pma s"
  "ep_info (endpoint_set_rx_ready s ep) = ep_info s"
  "in_queue (endpoint_set_rx_ready s ep) = in_queue s"
  "pending_address (endpoint_set_rx_ready s ep) = pending_address s"
  "tx_rem (endpoint_set_rx_ready s ep) = tx_rem s"
  "tx_rem_count (endpoint_set_rx_ready s ep) = tx_rem_count s"
  "int_count (endpoint_set_rx_ready s ep) = int_count s"
  "int_first (endpoint_set_rx_ready s ep) = int_first s"
  "usb_inital_prompt_pending (endpoint_set_rx_ready s ep) = usb_inital_prompt_pending s"
  "cp21_control (endpoint_set_rx_ready s ep) = cp21_control s"
  "cp21_baud (endpoint_set_rx_ready s ep) = cp21_baud s"
  "cp21_chars (endpoint_set_rx_ready s ep) = cp21_chars s"
  "stack (endpoint_set_rx_ready s ep) = stack s"
  by (simp_all add: endpoint_set_rx_ready_def)

lemma endpoint_clear_rx_keeps [simp]:
  "usb_current_state (endpoint_clear_rx s ep) = usb_current_state s"
  "uart_current_state (endpoint_clear_rx s ep) = uart_current_state s"
  "CNTR (endpoint_clear_rx s ep) = CNTR s"
  "ISTR (endpoint_clear_rx s ep) = ISTR s"
  "DADDR (endpoint_clear_rx s ep) = DADDR s"
  "BTABLE (endpoint_clear_rx s ep) = BTABLE s"
  "pma (endpoint_clear_rx s ep) = pma s"
  "ep_info (endpoint_clear_rx s ep) = ep_info s"
  "in_queue (endpoint_clear_rx s ep) = in_queue s"
  "pending_address (endpoint_clear_rx s ep) = pending_address s"
  "tx_rem (endpoint_clear_rx s ep) = tx_rem s"
  "tx_rem_count (endpoint_clear_rx s ep) = tx_rem_count s"
  "int_count (endpoint_clear_rx s ep) = int_count s"
  "int_first (endpoint_clear_rx s ep) = int_first s"
  "usb_inital_prompt_pending (endpoint_clear_rx s ep) = usb_inital_prompt_pending s"
  "cp21_control (endpoint_clear_rx s ep) = cp21_control s"
  "cp21_baud (endpoint_clear_rx s ep) = cp21_baud s"
  "cp21_chars (endpoint_clear_rx s ep) = cp21_chars s"
  "stack (endpoint_clear_rx s ep) = stack s"
  by (simp_all add: endpoint_clear_rx_def)

lemma endpoint_clear_tx_keeps [simp]:
  "usb_current_state (endpoint_clear_tx s ep) = usb_current_state s"
  "uart_current_state (endpoint_clear_tx s ep) = uart_current_state s"
  "CNTR (endpoint_clear_tx s ep) = CNTR s"
  "ISTR (endpoint_clear_tx s ep) = ISTR s"
  "DADDR (endpoint_clear_tx s ep) = DADDR s"
  "BTABLE (endpoint_clear_tx s ep) = BTABLE s"
  "pma (endpoint_clear_tx s ep) = pma s"
  "ep_info (endpoint_clear_tx s ep) = ep_info s"
  "in_queue (endpoint_clear_tx s ep) = in_queue s"
  "pending_address (endpoint_clear_tx s ep) = pending_address s"
  "tx_rem (endpoint_clear_tx s ep) = tx_rem s"
  "tx_rem_count (endpoint_clear_tx s ep) = tx_rem_count s"
  "int_count (endpoint_clear_tx s ep) = int_count s"
  "int_first (endpoint_clear_tx s ep) = int_first s"
  "usb_inital_prompt_pending (endpoint_clear_tx s ep) = usb_inital_prompt_pending s"
  "cp21_control (endpoint_clear_tx s ep) = cp21_control s"
  "cp21_baud (endpoint_clear_tx s ep) = cp21_baud s"
  "cp21_chars (endpoint_clear_tx s ep) = cp21_chars s"
  "stack (endpoint_clear_tx s ep) = stack s"
  by (simp_all add: endpoint_clear_tx_def)

lemma endpoint_stall_keeps [simp]:
  "usb_current_state (endpoint_stall s ep) = usb_current_state s"
  "uart_current_state (endpoint_stall s ep) = uart_current_state s"
  "CNTR (endpoint_stall s ep) = CNTR s"
  "ISTR (endpoint_stall s ep) = ISTR s"
  "DADDR (endpoint_stall s ep) = DADDR s"
  "BTABLE (endpoint_stall s ep) = BTABLE s"
  "pma (endpoint_stall s ep) = pma s"
  "ep_info (endpoint_stall s ep) = ep_info s"
  "in_queue (endpoint_stall s ep) = in_queue s"
  "pending_address (endpoint_stall s ep) = pending_address s"
  "tx_rem (endpoint_stall s ep) = tx_rem s"
  "tx_rem_count (endpoint_stall s ep) = tx_rem_count s"
  "int_count (endpoint_stall s ep) = int_count s"
  "int_first (endpoint_stall s ep) = int_first s"
  "usb_inital_prompt_pending (endpoint_stall s ep) = usb_inital_prompt_pending s"
  "cp21_control (endpoint_stall s ep) = cp21_control s"
  "cp21_baud (endpoint_stall s ep) = cp21_baud s"
  "cp21_chars (endpoint_stall s ep) = cp21_chars s"
  "stack (endpoint_stall s ep) = stack s"
  by (simp_all add: endpoint_stall_def)

lemma endpoint_set_tx_valid_keeps [simp]:
  "usb_current_state (endpoint_set_tx_valid s ep) = usb_current_state s"
  "uart_current_state (endpoint_set_tx_valid s ep) = uart_current_state s"
  "CNTR (endpoint_set_tx_valid s ep) = CNTR s"
  "ISTR (endpoint_set_tx_valid s ep) = ISTR s"
  "DADDR (endpoint_set_tx_valid s ep) = DADDR s"
  "BTABLE (endpoint_set_tx_valid s ep) = BTABLE s"
  "pma (endpoint_set_tx_valid s ep) = pma s"
  "ep_info (endpoint_set_tx_valid s ep) = ep_info s"
  "in_queue (endpoint_set_tx_valid s ep) = in_queue s"
  "pending_address (endpoint_set_tx_valid s ep) = pending_address s"
  "tx_rem (endpoint_set_tx_valid s ep) = tx_rem s"
  "tx_rem_count (endpoint_set_tx_valid s ep) = tx_rem_count s"
  "int_count (endpoint_set_tx_valid s ep) = int_count s"
  "int_first (endpoint_set_tx_valid s ep) = int_first s"
  "usb_inital_prompt_pending (endpoint_set_tx_valid s ep) = usb_inital_prompt_pending s"
  "cp21_control (endpoint_set_tx_valid s ep) = cp21_control s"
  "cp21_baud (endpoint_set_tx_valid s ep) = cp21_baud s"
  "cp21_chars (endpoint_set_tx_valid s ep) = cp21_chars s"
  "stack (endpoint_set_tx_valid s ep) = stack s"
  by (simp_all add: endpoint_set_tx_valid_def)

lemma endpoint_set_tx_nak_keeps [simp]:
  "usb_current_state (endpoint_set_tx_nak s ep) = usb_current_state s"
  "uart_current_state (endpoint_set_tx_nak s ep) = uart_current_state s"
  "CNTR (endpoint_set_tx_nak s ep) = CNTR s"
  "ISTR (endpoint_set_tx_nak s ep) = ISTR s"
  "DADDR (endpoint_set_tx_nak s ep) = DADDR s"
  "BTABLE (endpoint_set_tx_nak s ep) = BTABLE s"
  "pma (endpoint_set_tx_nak s ep) = pma s"
  "ep_info (endpoint_set_tx_nak s ep) = ep_info s"
  "in_queue (endpoint_set_tx_nak s ep) = in_queue s"
  "pending_address (endpoint_set_tx_nak s ep) = pending_address s"
  "tx_rem (endpoint_set_tx_nak s ep) = tx_rem s"
  "tx_rem_count (endpoint_set_tx_nak s ep) = tx_rem_count s"
  "int_count (endpoint_set_tx_nak s ep) = int_count s"
  "int_first (endpoint_set_tx_nak s ep) = int_first s"
  "usb_inital_prompt_pending (endpoint_set_tx_nak s ep) = usb_inital_prompt_pending s"
  "cp21_control (endpoint_set_tx_nak s ep) = cp21_control s"
  "cp21_baud (endpoint_set_tx_nak s ep) = cp21_baud s"
  "cp21_chars (endpoint_set_tx_nak s ep) = cp21_chars s"
  "stack (endpoint_set_tx_nak s ep) = stack s"
  by (simp_all add: endpoint_set_tx_nak_def)

lemma endpoint_recv_ready_keeps [simp]:
  "usb_current_state (endpoint_recv_ready s ep) = usb_current_state s"
  "uart_current_state (endpoint_recv_ready s ep) = uart_current_state s"
  "CNTR (endpoint_recv_ready s ep) = CNTR s"
  "ISTR (endpoint_recv_ready s ep) = ISTR s"
  "DADDR (endpoint_recv_ready s ep) = DADDR s"
  "BTABLE (endpoint_recv_ready s ep) = BTABLE s"
  "ep_info (endpoint_recv_ready s ep) = ep_info s"
  "in_queue (endpoint_recv_ready s ep) = in_queue s"
  "pending_address (endpoint_recv_ready s ep) = pending_address s"
  "tx_rem (endpoint_recv_ready s ep) = tx_rem s"
  "tx_rem_count (endpoint_recv_ready s ep) = tx_rem_count s"
  "int_count (endpoint_recv_ready s ep) = int_count s"
  "int_first (endpoint_recv_ready s ep) = int_first s"
  "usb_inital_prompt_pending (endpoint_recv_ready s ep) = usb_inital_prompt_pending s"
  "cp21_control (endpoint_recv_ready s ep) = cp21_control s"
  "cp21_baud (endpoint_recv_ready s ep) = cp21_baud s"
  "cp21_chars (endpoint_recv_ready s ep) = cp21_chars s"
  "stack (endpoint_recv_ready s ep) = stack s"
  by (simp_all add: endpoint_recv_ready_def Let_def)

lemma usb_endpoint_send_zlp_keeps [simp]:
  "usb_current_state (usb_endpoint_send_zlp s ep) = usb_current_state s"
  "uart_current_state (usb_endpoint_send_zlp s ep) = uart_current_state s"
  "CNTR (usb_endpoint_send_zlp s ep) = CNTR s"
  "ISTR (usb_endpoint_send_zlp s ep) = ISTR s"
  "DADDR (usb_endpoint_send_zlp s ep) = DADDR s"
  "BTABLE (usb_endpoint_send_zlp s ep) = BTABLE s"
  "ep_info (usb_endpoint_send_zlp s ep) = ep_info s"
  "in_queue (usb_endpoint_send_zlp s ep) = in_queue s"
  "pending_address (usb_endpoint_send_zlp s ep) = pending_address s"
  "tx_rem (usb_endpoint_send_zlp s ep) = tx_rem s"
  "tx_rem_count (usb_endpoint_send_zlp s ep) = tx_rem_count s"
  "int_count (usb_endpoint_send_zlp s ep) = int_count s"
  "int_first (usb_endpoint_send_zlp s ep) = int_first s"
  "usb_inital_prompt_pending (usb_endpoint_send_zlp s ep) = usb_inital_prompt_pending s"
  "cp21_control (usb_endpoint_send_zlp s ep) = cp21_control s"
  "cp21_baud (usb_endpoint_send_zlp s ep) = cp21_baud s"
  "cp21_chars (usb_endpoint_send_zlp s ep) = cp21_chars s"
  "stack (usb_endpoint_send_zlp s ep) = stack s"
  by (simp_all add: usb_endpoint_send_zlp_def Let_def)

lemma usb_endpoint_send_keeps [simp]:
  "usb_current_state (usb_endpoint_send s ep b cnt) = usb_current_state s"
  "uart_current_state (usb_endpoint_send s ep b cnt) = uart_current_state s"
  "CNTR (usb_endpoint_send s ep b cnt) = CNTR s"
  "ISTR (usb_endpoint_send s ep b cnt) = ISTR s"
  "DADDR (usb_endpoint_send s ep b cnt) = DADDR s"
  "BTABLE (usb_endpoint_send s ep b cnt) = BTABLE s"
  "in_queue (usb_endpoint_send s ep b cnt) = in_queue s"
  "pending_address (usb_endpoint_send s ep b cnt) = pending_address s"
  "int_count (usb_endpoint_send s ep b cnt) = int_count s"
  "int_first (usb_endpoint_send s ep b cnt) = int_first s"
  "usb_inital_prompt_pending (usb_endpoint_send s ep b cnt) = usb_inital_prompt_pending s"
  "cp21_control (usb_endpoint_send s ep b cnt) = cp21_control s"
  "cp21_baud (usb_endpoint_send s ep b cnt) = cp21_baud s"
  "cp21_chars (usb_endpoint_send s ep b cnt) = cp21_chars s"
  "stack (usb_endpoint_send s ep b cnt) = stack s"
  by (simp_all add: usb_endpoint_send_def Let_def)

lemma endpoint_rem_keeps [simp]:
  "usb_current_state (endpoint_rem s ep) = usb_current_state s"
  "uart_current_state (endpoint_rem s ep) = uart_current_state s"
  "CNTR (endpoint_rem s ep) = CNTR s"
  "ISTR (endpoint_rem s ep) = ISTR s"
  "DADDR (endpoint_rem s ep) = DADDR s"
  "BTABLE (endpoint_rem s ep) = BTABLE s"
  "in_queue (endpoint_rem s ep) = in_queue s"
  "pending_address (endpoint_rem s ep) = pending_address s"
  "tx_rem (endpoint_rem s ep) = tx_rem s"
  "tx_rem_count (endpoint_rem s ep) = tx_rem_count s"
  "int_count (endpoint_rem s ep) = int_count s"
  "int_first (endpoint_rem s ep) = int_first s"
  "usb_inital_prompt_pending (endpoint_rem s ep) = usb_inital_prompt_pending s"
  "cp21_control (endpoint_rem s ep) = cp21_control s"
  "cp21_baud (endpoint_rem s ep) = cp21_baud s"
  "cp21_chars (endpoint_rem s ep) = cp21_chars s"
  "stack (endpoint_rem s ep) = stack s"
  by (simp_all add: endpoint_rem_def Let_def)

lemma fold_epr_store_keeps [simp]:
  "usb_current_state (fold (\<lambda>ep s. epr_store s ep v) xs s) = usb_current_state s"
  "uart_current_state (fold (\<lambda>ep s. epr_store s ep v) xs s) = uart_current_state s"
  "CNTR (fold (\<lambda>ep s. epr_store s ep v) xs s) = CNTR s"
  "ISTR (fold (\<lambda>ep s. epr_store s ep v) xs s) = ISTR s"
  "DADDR (fold (\<lambda>ep s. epr_store s ep v) xs s) = DADDR s"
  "BTABLE (fold (\<lambda>ep s. epr_store s ep v) xs s) = BTABLE s"
  "pma (fold (\<lambda>ep s. epr_store s ep v) xs s) = pma s"
  "ep_info (fold (\<lambda>ep s. epr_store s ep v) xs s) = ep_info s"
  "in_queue (fold (\<lambda>ep s. epr_store s ep v) xs s) = in_queue s"
  "pending_address (fold (\<lambda>ep s. epr_store s ep v) xs s) = pending_address s"
  "tx_rem (fold (\<lambda>ep s. epr_store s ep v) xs s) = tx_rem s"
  "tx_rem_count (fold (\<lambda>ep s. epr_store s ep v) xs s) = tx_rem_count s"
  "int_count (fold (\<lambda>ep s. epr_store s ep v) xs s) = int_count s"
  "int_first (fold (\<lambda>ep s. epr_store s ep v) xs s) = int_first s"
  "usb_inital_prompt_pending (fold (\<lambda>ep s. epr_store s ep v) xs s) = usb_inital_prompt_pending s"
  "cp21_control (fold (\<lambda>ep s. epr_store s ep v) xs s) = cp21_control s"
  "cp21_baud (fold (\<lambda>ep s. epr_store s ep v) xs s) = cp21_baud s"
  "cp21_chars (fold (\<lambda>ep s. epr_store s ep v) xs s) = cp21_chars s"
  "stack (fold (\<lambda>ep s. epr_store s ep v) xs s) = stack s"
  by (induction xs arbitrary: s) simp_all

lemma endpoint_init_keeps [simp]:
  "usb_current_state (endpoint_init s) = usb_current_state s"
  "uart_current_state (endpoint_init s) = uart_current_state s"
  "CNTR (endpoint_init s) = CNTR s"
  "ISTR (endpoint_init s) = ISTR s"
  "DADDR (endpoint_init s) = DADDR s"
  "BTABLE (endpoint_init s) = BTABLE s"
  "in_queue (endpoint_init s) = in_queue s"
  "pending_address (endpoint_init s) = pending_address s"
  "tx_rem (endpoint_init s) = tx_rem s"
  "tx_rem_count (endpoint_init s) = tx_rem_count s"
  "int_count (endpoint_init s) = int_count s"
  "int_first (endpoint_init s) = int_first s"
  "usb_inital_prompt_pending (endpoint_init s) = usb_inital_prompt_pending s"
  "cp21_control (endpoint_init s) = cp21_control s"
  "cp21_baud (endpoint_init s) = cp21_baud s"
  "cp21_chars (endpoint_init s) = cp21_chars s"
  "stack (endpoint_init s) = stack s"
  by (simp_all add: endpoint_init_def Let_def)

lemma reset_keeps [simp]:
  "usb_current_state (reset s) = usb_current_state s"
  "uart_current_state (reset s) = uart_current_state s"
  "CNTR (reset s) = CNTR s"
  "ISTR (reset s) = ISTR s"
  "BTABLE (reset s) = BTABLE s"
  "in_queue (reset s) = in_queue s"
  "pending_address (reset s) = pending_address s"
  "tx_rem (reset s) = tx_rem s"
  "tx_rem_count (reset s) = tx_rem_count s"
  "int_count (reset s) = int_count s"
  "int_first (reset s) = int_first s"
  "usb_inital_prompt_pending (reset s) = usb_inital_prompt_pending s"
  "cp21_control (reset s) = cp21_control s"
  "cp21_baud (reset s) = cp21_baud s"
  "cp21_chars (reset s) = cp21_chars s"
  "stack (reset s) = stack s"
  by (simp_all add: reset_def)

lemma hw_init_keeps [simp]:
  "usb_current_state (hw_init s) = usb_current_state s"
  "uart_current_state (hw_init s) = uart_current_state s"
  "in_queue (hw_init s) = in_queue s"
  "pending_address (hw_init s) = pending_address s"
  "tx_rem (hw_init s) = tx_rem s"
  "tx_rem_count (hw_init s) = tx_rem_count s"
  "int_count (hw_init s) = int_count s"
  "int_first (hw_init s) = int_first s"
  "usb_inital_prompt_pending (hw_init s) = usb_inital_prompt_pending s"
  "cp21_control (hw_init s) = cp21_control s"
  "cp21_baud (hw_init s) = cp21_baud s"
  "cp21_chars (hw_init s) = cp21_chars s"
  "stack (hw_init s) = stack s"
  by (simp_all add: hw_init_def Let_def)

section \<open>Requests, interrupts and the state they move\<close>

lemmas handler_defs =
  set_address_req_def set_configuration_def cp21_vendor_def cp21_enable_def
  cp21_set_baud_def cp21_set_line_def cp21_set_chars_def cp21_get_flow_def
  cp21_get_modem_def cp21_set_modem_def cp21_get_status_def usb_class_def

lemma string_send_keeps:
  assumes "string_send s index = Inr (n, s')"
  shows "usb_current_state s' = usb_current_state s"
    and "uart_current_state s' = uart_current_state s"
    and "DADDR s' = DADDR s"
    and "pending_address s' = pending_address s"
    and "cp21_control s' = cp21_control s"
    and "cp21_baud s' = cp21_baud s"
    and "cp21_chars s' = cp21_chars s"
    and "in_queue s' = in_queue s"
  using assms by (auto simp: string_send_def Let_def split: if_splits)

lemma get_descriptor_keeps:
  assumes "get_descriptor s sp = Inr (rv, s')"
  shows "usb_current_state s' = usb_current_state s"
    and "uart_current_state s' = uart_current_state s"
    and "DADDR s' = DADDR s"
    and "pending_address s' = pending_address s"
    and "cp21_control s' = cp21_control s"
    and "cp21_baud s' = cp21_baud s"
    and "cp21_chars s' = cp21_chars s"
    and "in_queue s' = in_queue s"
  using assms
  by (auto simp: get_descriptor_def Let_def split: if_splits sum.splits dest: string_send_keeps)

lemma usb_setup_state:
  assumes "usb_setup s b cnt = Inr (rv, s')"
  shows "usb_current_state s' =
           (if cnt \<noteq> 0 \<and> rtype (setup_of b) \<noteq> 0x21 \<and> tag_of (setup_of b) = 0x0009
            then CONFIGURED else usb_current_state s)"
  using assms
  by (auto simp: usb_setup_def Let_def handler_defs split: if_splits dest: get_descriptor_keeps)

lemma usb_setup_DADDR:
  assumes "usb_setup s b cnt = Inr (rv, s')"
  shows "DADDR s' = DADDR s"
  using assms
  by (auto simp: usb_setup_def Let_def handler_defs split: if_splits dest: get_descriptor_keeps)



lemma usb_control_keeps:
  assumes "usb_control s b cnt = Inr (rv, s')"
  shows "usb_current_state s' = usb_current_state s" and "DADDR s' = DADDR s"
    and "pending_address s' = pending_address s"
  using assms by (auto simp: usb_control_def split: if_splits)

subsection \<open>The endpoint register across the operations\<close>

lemma EPR_epr_store [simp]:
  "EPR (epr_store s ep v) = (EPR s)(ep := epr_hw_write (EPR s ep) v)"
  by (simp add: epr_store_def)

lemma EPR_ops [simp]:
  "EPR (endpoint_set_rx_ready s ep) =
     (EPR s)(ep := epr_hw_write (EPR s ep) (endpoint_set_rx_ready_val (EPR s ep)))"
  "EPR (endpoint_clear_rx s ep) =
     (EPR s)(ep := epr_hw_write (EPR s ep) (endpoint_clear_rx_val (EPR s ep)))"
  "EPR (endpoint_clear_tx s ep) =
     (EPR s)(ep := epr_hw_write (EPR s ep) (endpoint_clear_tx_val (EPR s ep)))"
  "EPR (endpoint_set_tx_valid s ep) =
     (EPR s)(ep := epr_hw_write (EPR s ep) (endpoint_set_tx_valid_val (EPR s ep)))"
  "EPR (endpoint_set_tx_nak s ep) =
     (EPR s)(ep := epr_hw_write (EPR s ep) (endpoint_set_tx_nak_val (EPR s ep)))"
  by (simp_all add: endpoint_set_rx_ready_def endpoint_clear_rx_def endpoint_clear_tx_def
      endpoint_set_tx_valid_def endpoint_set_tx_nak_def)

lemma EPR_sends [simp]:
  "EPR (usb_endpoint_send s ep b cnt) =
     (EPR s)(ep := epr_hw_write (EPR s ep) (endpoint_set_tx_valid_val (EPR s ep)))"
  "EPR (usb_endpoint_send_zlp s ep) =
     (EPR s)(ep := epr_hw_write (EPR s ep) (endpoint_set_tx_valid_val (EPR s ep)))"
  "EPR (endpoint_recv_ready s ep) =
     (EPR s)(ep := epr_hw_write (EPR s ep) (endpoint_set_rx_ready_val (EPR s ep)))"
  "EPR (endpoint_rem s ep) =
     (EPR s)(ep := epr_hw_write (EPR s ep) (endpoint_set_tx_valid_val (EPR s ep)))"
  by (simp_all add: usb_endpoint_send_def usb_endpoint_send_zlp_def endpoint_recv_ready_def
      endpoint_rem_def Let_def)

text \<open>
  A write never sets a correct-transfer flag; the writes of the clear and transmit
  operations carry a zero for CTR_TX and so leave it clear.
\<close>

lemma hw_write_keeps_CTR_TX_clear:
  "cur AND USB_EP0R_CTR_TX = 0 \<Longrightarrow> epr_hw_write cur w AND USB_EP0R_CTR_TX = 0"
  unfolding epr_hw_write_def usb_bits ep_toggles
  apply (simp add: bit_eq_iff bit_and_iff bit_or_iff bit_xor_iff bit_not_iff)
  apply (simp only: all_bits_32)
  apply simp
  done

lemma clear_tx_clears_CTR_TX:
  "epr_hw_write v (endpoint_clear_tx_val v) AND USB_EP0R_CTR_TX = 0"
  unfolding epr_hw_write_def endpoint_vals usb_bits ep_toggles Let_def
  apply (simp add: bit_eq_iff bit_and_iff bit_or_iff bit_xor_iff bit_not_iff)
  apply (simp only: all_bits_32)
  apply simp
  done

lemma set_tx_valid_clears_CTR_TX:
  "epr_hw_write v (endpoint_set_tx_valid_val v) AND USB_EP0R_CTR_TX = 0"
  unfolding epr_hw_write_def endpoint_vals usb_bits ep_toggles Let_def
  apply (simp add: bit_eq_iff bit_and_iff bit_or_iff bit_xor_iff bit_not_iff)
  apply (simp only: all_bits_32)
  apply simp
  done

lemma string_send_CTR_TX:
  assumes "string_send s index = Inr (n, s')"
  shows "EPR s' 0 AND USB_EP0R_CTR_TX = 0"
  using assms
  by (auto simp: string_send_def Let_def set_tx_valid_clears_CTR_TX split: if_splits)

lemma get_descriptor_CTR_TX:
  assumes "get_descriptor s sp = Inr (rv, s')" "EPR s 0 AND USB_EP0R_CTR_TX = 0"
  shows "EPR s' 0 AND USB_EP0R_CTR_TX = 0"
  using assms
  by (auto simp: get_descriptor_def Let_def set_tx_valid_clears_CTR_TX
      split: if_splits sum.splits dest: string_send_CTR_TX)

lemma usb_setup_CTR_TX:
  assumes "usb_setup s b cnt = Inr (rv, s')" "EPR s 0 AND USB_EP0R_CTR_TX = 0"
  shows "EPR s' 0 AND USB_EP0R_CTR_TX = 0"
  using assms
  by (auto simp: usb_setup_def Let_def handler_defs set_tx_valid_clears_CTR_TX
      split: if_splits dest: get_descriptor_CTR_TX)

lemma usb_control_CTR_TX:
  assumes "usb_control s b cnt = Inr (rv, s')" "EPR s 0 AND USB_EP0R_CTR_TX = 0"
  shows "EPR s' 0 AND USB_EP0R_CTR_TX = 0"
  using assms
  by (auto simp: usb_control_def set_tx_valid_clears_CTR_TX split: if_splits)

lemma ctr0_rx_CTR_TX:
  assumes "ctr0_rx s = Inr (r, s')"
  shows "EPR s' 0 AND USB_EP0R_CTR_TX = 0"
proof -
  let ?s2 = "endpoint_recv_ready (endpoint_clear_tx s EP0R) EP0R"
  have c: "EPR ?s2 0 AND USB_EP0R_CTR_TX = 0"
    by (simp add: EP0R_def hw_write_keeps_CTR_TX_clear clear_tx_clears_CTR_TX)
  from assms show ?thesis
    by (auto simp: ctr0_rx_def Let_def split_beta split: if_splits sum.splits
        dest: usb_setup_CTR_TX[OF _ c] usb_control_CTR_TX[OF _ c] intro: c)
qed

lemma ctr0_rx_DADDR:
  assumes "ctr0_rx s = Inr (r, s')"
  shows "DADDR s' = DADDR s"
  using assms
  by (auto simp: ctr0_rx_def Let_def split_beta split: if_splits sum.splits
      dest: usb_setup_DADDR usb_control_keeps)

text \<open>
  A call of \<open>ctr0\<close> that finds a reception to handle does not reach its transmit
  branch, so it leaves the address register alone.
\<close>

lemma ctr0_rx_event_DADDR:
  assumes "EPR s EP0R AND USB_EP0R_CTR_RX \<noteq> 0" "ctr0 s = Inr s'"
  shows "DADDR s' = DADDR s"
  using assms
  by (auto simp: ctr0_def EP0R_def split: sum.splits if_splits
      dest: ctr0_rx_DADDR ctr0_rx_CTR_TX)

lemma data_ctr_DADDR:
  assumes "data_ctr s ep = Inr s'"
  shows "DADDR s' = DADDR s" and "pending_address s' = pending_address s"
  using assms by (auto simp: data_ctr_def Let_def split: if_splits)

subsection \<open>Who assigns the enumeration state\<close>

text \<open>
  No interrupt moves the enumeration state anywhere but to CONFIGURED: apart from
  \<open>usb_init\<close>, the assignment in \<open>set_configuration\<close> is the only one.
\<close>

lemma ctr0_tx_state [simp]: "usb_current_state (ctr0_tx s) = usb_current_state s"
  by (simp add: ctr0_tx_def Let_def)

lemma ctr0_rx_state:
  assumes "ctr0_rx s = Inr (r, s')"
  shows "usb_current_state s' = usb_current_state s \<or> usb_current_state s' = CONFIGURED"
  using assms
  by (auto simp: ctr0_rx_def Let_def split_beta split: if_splits sum.splits
      dest!: usb_setup_state usb_control_keeps(1))

lemma data_ctr_state:
  assumes "data_ctr s ep = Inr s'"
  shows "usb_current_state s' = usb_current_state s"
  using assms by (auto simp: data_ctr_def Let_def split: if_splits)

lemma ctr0_state:
  assumes "ctr0 s = Inr s'"
  shows "usb_current_state s' = usb_current_state s \<or> usb_current_state s' = CONFIGURED"
proof (cases "EPR s EP0R AND USB_EP0R_CTR_RX \<noteq> 0")
  case True
  with assms obtain r s1 where rx: "ctr0_rx s = Inr (r, s1)"
    by (auto simp: ctr0_def split: sum.splits)
  with assms True have "usb_current_state s' = usb_current_state s1"
    by (auto simp: ctr0_def split: if_splits)
  with ctr0_rx_state[OF rx] show ?thesis by simp
next
  case False
  with assms show ?thesis by (auto simp: ctr0_def split: if_splits)
qed

lemma irq_state:
  assumes "USB_LP_CAN1_RX0_IRQHandler s = Inr s'"
  shows "usb_current_state s' = usb_current_state s \<or> usb_current_state s' = CONFIGURED"
proof -
  let ?s1 = "(if int_first s \<noteq> 0 then
                 let c = int_count s;
                     s = s\<lparr>int_count := c + 1\<rparr>
                 in if c > 2000 then s\<lparr>int_first := 0, CNTR := 0\<rparr> else s
               else s)"
  let ?s2 = "(if ISTR ?s1 AND USB_ISTR_RESET \<noteq> 0 then
                 let s = reset ?s1 in s\<lparr>ISTR := ISTR s AND NOT USB_ISTR_RESET\<rparr>
               else ?s1)"
  have k: "usb_current_state ?s2 = usb_current_state s" by (simp add: Let_def)
  show ?thesis
  proof (cases "ISTR ?s2 AND USB_ISTR_CTR \<noteq> 0")
    case True
    let ?ep = "unat (ISTR ?s2 AND 0xf)"
    from assms True obtain s3 where
      r: "(if ?ep = 0 then ctr0 ?s2 else data_ctr ?s2 ?ep) = Inr s3"
      and e: "usb_current_state s' = usb_current_state s3"
      unfolding USB_LP_CAN1_RX0_IRQHandler_def Let_def
      by (auto split: sum.splits)
    from r have "usb_current_state s3 = usb_current_state ?s2 \<or> usb_current_state s3 = CONFIGURED"
      by (auto split: if_splits dest: ctr0_state data_ctr_state)
    with e k show ?thesis by simp
  next
    case False
    with assms have "s' = ?s2"
      unfolding USB_LP_CAN1_RX0_IRQHandler_def Let_def by simp
    with k show ?thesis by simp
  qed
qed

subsection \<open>Deferred address change\<close>

lemma usb_endpoint_recv_pma:
  "pma s' = pma s \<Longrightarrow> usb_endpoint_recv s' ep b = usb_endpoint_recv s ep b"
  by (simp add: usb_endpoint_recv_def bte_rx_count_def bte_rx_addr_def pma_copy_in_def)

lemma usb_endpoint_recv_count:
  "fst (usb_endpoint_recv s ep b) = uint (bte_rx_count s ep AND 0x3ff)"
  by (simp add: usb_endpoint_recv_def Let_def)

lemma bte_tx_count_zlp [simp]: "bte_tx_count (usb_endpoint_send_zlp s ep) ep = 0"
  by (simp add: usb_endpoint_send_zlp_def Let_def bte_tx_count_def set_bte_tx_count_def)

lemma bte_rx_count_clear_tx [simp]:
  "bte_rx_count (endpoint_clear_tx s ep) ep' = bte_rx_count s ep'"
  by (simp add: bte_rx_count_def)

lemma set_rx_ready_clears_CTR_RX:
  "epr_hw_write v (endpoint_set_rx_ready_val v) AND USB_EP0R_CTR_RX = 0"
  unfolding epr_hw_write_def endpoint_vals usb_bits ep_toggles Let_def
  apply (simp add: bit_eq_iff bit_and_iff bit_or_iff bit_xor_iff bit_not_iff)
  apply (simp only: all_bits_32)
  apply simp
  done

lemma hw_write_keeps_CTR_RX_clear:
  "cur AND USB_EP0R_CTR_RX = 0 \<Longrightarrow> epr_hw_write cur w AND USB_EP0R_CTR_RX = 0"
  unfolding epr_hw_write_def usb_bits ep_toggles
  apply (simp add: bit_eq_iff bit_and_iff bit_or_iff bit_xor_iff bit_not_iff)
  apply (simp only: all_bits_32)
  apply simp
  done

lemma tag_of_set_address:
  "rtype sp = 0x00 \<Longrightarrow> request sp = 0x05 \<Longrightarrow> tag_of sp = 0x0005"
  by (simp add: tag_of_def)

lemma ctr0_setup_set_address:
  assumes rx: "EPR s 0 AND USB_EP0R_CTR_RX \<noteq> 0" and su: "EPR s 0 AND USB_EP0R_SETUP \<noteq> 0"
    and pk: "usb_endpoint_recv s 0 (stack s) = (cnt, b)"
    and cnt: "cnt \<noteq> 0" "cnt \<noteq> 1" "cnt \<le> 10"
    and rq: "rtype (setup_of b) = 0x00" "request (setup_of b) = 0x05"
  shows "\<exists>s1. ctr0 s = Inr s1 \<and> DADDR s1 = DADDR s
           \<and> pending_address s1 = uint (value_w (setup_of b))
           \<and> bte_tx_count s1 0 = 0
           \<and> EPR s1 0 AND USB_EP0R_STAT_TX = STAT_TX_VALID
           \<and> EPR s1 0 AND USB_EP0R_CTR_RX = 0 \<and> EPR s1 0 AND USB_EP0R_CTR_TX = 0"
proof -
  let ?s1 = "endpoint_clear_tx s 0"
  let ?s2 = "endpoint_recv_ready ?s1 0"
  let ?s3 = "usb_endpoint_send_zlp (usb_pend_address (?s2\<lparr>cp21_control := NONE\<rparr>) (uint (value_w (setup_of b)))) 0"
  have recv: "usb_endpoint_recv ?s1 0 (stack ?s1) = (cnt, b)"
    using pk usb_endpoint_recv_pma[of ?s1 s 0 "stack s"] by simp
  have c0: "uint (bte_rx_count s 0 AND 0x3ff) = cnt"
    using pk usb_endpoint_recv_count[of s 0 "stack s"] by simp
  have stp: "usb_setup ?s2 b cnt = Inr (Some 1, ?s3)"
    using cnt rq by (simp add: usb_setup_def Let_def tag_of_set_address set_address_req_def)
  have rxv: "ctr0_rx s = Inr (False, ?s3)"
    using c0 cnt su recv stp by (simp add: ctr0_rx_def Let_def EP0R_def SETUP_BUF_def)
  have tx0: "EPR ?s3 0 AND USB_EP0R_CTR_TX = 0"
    by (simp add: usb_pend_address_def set_tx_valid_clears_CTR_TX)
  have rx0: "EPR ?s3 0 AND USB_EP0R_CTR_RX = 0"
    by (simp add: usb_pend_address_def hw_write_keeps_CTR_RX_clear set_rx_ready_clears_CTR_RX)
  have "ctr0 s = Inr ?s3"
    using rx rxv tx0 by (simp add: ctr0_def EP0R_def)
  moreover have "DADDR ?s3 = DADDR s" "pending_address ?s3 = uint (value_w (setup_of b))"
    "bte_tx_count ?s3 0 = 0"
    by (simp_all add: usb_pend_address_def)
  moreover have "EPR ?s3 0 AND USB_EP0R_STAT_TX = STAT_TX_VALID"
    by (simp add: usb_pend_address_def endpoint_set_tx_valid_reaches_VALID)
  ultimately show ?thesis using tx0 rx0 by blast
qed

lemma ctr0_tx_only:
  assumes "EPR t 0 AND USB_EP0R_CTR_RX = 0" "EPR t 0 AND USB_EP0R_CTR_TX \<noteq> 0"
  shows "ctr0 t = Inr (ctr0_tx t)"
  using assms by (simp add: ctr0_def EP0R_def)

lemma ctr0_tx_address:
  "DADDR (ctr0_tx t) =
     (if pending_address t \<noteq> 0
      then USB_DADDR_EF OR word_of_int (pending_address t AND 0x7f) else DADDR t)"
  "pending_address (ctr0_tx t) = 0"
  by (simp_all add: ctr0_tx_def Let_def set_address_def)


subsection \<open>Evaluating the copy loops on numerals\<close>

lemma copy_out_loop_numeral:
  "copy_out_loop base b (numeral k) m =
     (copy_out_loop base b (pred_numeral k) m)
       (base + pred_numeral k :=
          ucast (b (2 * pred_numeral k)) OR push_bit 8 (ucast (b (2 * pred_numeral k + 1))))"
  by (simp add: numeral_eq_Suc)

lemma copy_in_loop_numeral:
  "copy_in_loop base m (numeral k) b =
     (copy_in_loop base m (pred_numeral k) b)
       (2 * pred_numeral k := ucast (m (base + pred_numeral k)),
        2 * pred_numeral k + 1 := ucast (drop_bit 8 (m (base + pred_numeral k))))"
  by (simp add: numeral_eq_Suc)

lemma c_div_pos: "0 \<le> a \<Longrightarrow> 0 < b \<Longrightarrow> c_div a b = a div b"
  by (cases "a = 0") (simp_all add: c_div_def)

lemmas eval_packet =
  with_setup_packet_def with_tx_complete_def usb_endpoint_recv_def bte_rx_count_def
  bte_rx_addr_def pma_copy_in_def Let_def c_div_pos copy_out_loop_numeral
  copy_in_loop_numeral cbuf_of_def setup_of_def le16_def power_on_def boot_def usb_bits
  stat_codes


text \<open>
  Claim C3, as the code has it. When \<open>ctr0\<close> handles a SETUP packet with request type
  0x00 and request 0x05, it answers with a zero-length packet (transmit count 0, TX
  status VALID), records the request's value as the pending address and leaves the
  address register as it was. On a later call that finds only a completed transmission
  on endpoint 0, a nonzero pending address is written to the address register (its low
  seven bits, with the enable bit) and the pending value is cleared.
\<close>

theorem set_address_deferred:
  "(EPR s 0 AND USB_EP0R_CTR_RX \<noteq> 0 \<and> EPR s 0 AND USB_EP0R_SETUP \<noteq> 0
      \<and> usb_endpoint_recv s 0 (stack s) = (cnt, b) \<and> cnt \<noteq> 0 \<and> cnt \<noteq> 1 \<and> cnt \<le> 10
      \<and> rtype (setup_of b) = 0x00 \<and> request (setup_of b) = 0x05
    \<longrightarrow> (\<exists>s1. ctr0 s = Inr s1 \<and> DADDR s1 = DADDR s
            \<and> pending_address s1 = uint (value_w (setup_of b))
            \<and> bte_tx_count s1 0 = 0
            \<and> EPR s1 0 AND USB_EP0R_STAT_TX = STAT_TX_VALID))
   \<and> (EPR t 0 AND USB_EP0R_CTR_RX = 0 \<and> EPR t 0 AND USB_EP0R_CTR_TX \<noteq> 0
      \<and> pending_address t \<noteq> 0
    \<longrightarrow> ctr0 t = Inr (ctr0_tx t)
        \<and> DADDR (ctr0_tx t) = (USB_DADDR_EF OR word_of_int (pending_address t AND 0x7f))
        \<and> pending_address (ctr0_tx t) = 0)"
  using ctr0_setup_set_address[of s cnt b] ctr0_tx_only[of t] ctr0_tx_address[of t]
  by auto

theorem set_address_deferred_witness:
  "(let s = with_setup_packet [0x00, 0x05, 0x05, 0x00, 0, 0, 0, 0] power_on;
        b = snd (usb_endpoint_recv s 0 (stack s));
        t = with_tx_complete 0 (power_on\<lparr>pending_address := 5\<rparr>)
    in EPR s 0 AND USB_EP0R_CTR_RX \<noteq> 0 \<and> EPR s 0 AND USB_EP0R_SETUP \<noteq> 0
       \<and> usb_endpoint_recv s 0 (stack s) = (8, b)
       \<and> rtype (setup_of b) = 0x00 \<and> request (setup_of b) = 0x05
       \<and> value_w (setup_of b) = 5
       \<and> (\<exists>s1. ctr0 s = Inr s1 \<and> DADDR s1 = DADDR s \<and> pending_address s1 = 5
              \<and> bte_tx_count s1 0 = 0
              \<and> EPR s1 0 AND USB_EP0R_STAT_TX = STAT_TX_VALID)
       \<and> EPR t 0 AND USB_EP0R_CTR_RX = 0 \<and> EPR t 0 AND USB_EP0R_CTR_TX \<noteq> 0
       \<and> pending_address t = 5
       \<and> ctr0 t = Inr (ctr0_tx t) \<and> DADDR (ctr0_tx t) = 0x85
       \<and> pending_address (ctr0_tx t) = 0)"
proof -
  let ?s = "with_setup_packet [0x00, 0x05, 0x05, 0x00, 0, 0, 0, 0] power_on"
  let ?b = "snd (usb_endpoint_recv ?s 0 (stack ?s))"
  let ?t = "with_tx_complete 0 (power_on\<lparr>pending_address := 5\<rparr>)"
  have e: "EPR ?s 0 AND USB_EP0R_CTR_RX \<noteq> 0" "EPR ?s 0 AND USB_EP0R_SETUP \<noteq> 0"
    by (simp_all add: eval_packet)
  have "fst (usb_endpoint_recv ?s 0 (stack ?s)) = 8" by (simp add: eval_packet)
  then have r: "usb_endpoint_recv ?s 0 (stack ?s) = (8, ?b)" by (simp add: prod_eq_iff)
  have f: "setup_of ?b = \<lparr>rtype = 0, request = 5, value_w = 5, index_w = 0, length_w = 0\<rparr>"
    by (simp add: eval_packet)
  have g: "EPR ?t 0 AND USB_EP0R_CTR_RX = 0" "EPR ?t 0 AND USB_EP0R_CTR_TX \<noteq> 0"
    "pending_address ?t = 5"
    by (simp_all add: eval_packet)
  have n: "(8::int) \<noteq> 0" "(8::int) \<noteq> 1" "(8::int) \<le> 10" by simp_all
  have w: "(USB_DADDR_EF OR word_of_int (5 AND 0x7f)) = (0x85 :: u32)"
    by (simp add: usb_bits)
  from set_address_deferred[of ?s 8 ?b ?t] e r f g n w show ?thesis
    unfolding Let_def by simp
qed

text \<open>
  Claim C3 as stated fails for SET_ADDRESS with value 0: zero is also the "nothing
  pending" value, so a device at address 5 (register 0x85) that handles the request
  and then its status stage still has 0x85 in the address register.
\<close>

theorem set_address_zero_not_applied:
  "(case ctr0 (with_setup_packet [0x00, 0x05, 0x00, 0x00, 0, 0, 0, 0] (power_on\<lparr>DADDR := 0x85\<rparr>)) of
      Inl e \<Rightarrow> False
    | Inr s1 \<Rightarrow>
        pending_address s1 = 0 \<and>
        (case ctr0 (with_tx_complete 0 s1) of
           Inl e \<Rightarrow> False
         | Inr s2 \<Rightarrow> DADDR s2 = 0x85 \<and> DADDR s2 \<noteq> (USB_DADDR_EF OR 0x00)))"
proof -
  let ?s = "with_setup_packet [0x00, 0x05, 0x00, 0x00, 0, 0, 0, 0] (power_on\<lparr>DADDR := 0x85\<rparr>)"
  let ?b = "snd (usb_endpoint_recv ?s 0 (stack ?s))"
  have e: "EPR ?s 0 AND USB_EP0R_CTR_RX \<noteq> 0" "EPR ?s 0 AND USB_EP0R_SETUP \<noteq> 0"
    by (simp_all add: eval_packet)
  have "fst (usb_endpoint_recv ?s 0 (stack ?s)) = 8" by (simp add: eval_packet)
  then have r: "usb_endpoint_recv ?s 0 (stack ?s) = (8, ?b)" by (simp add: prod_eq_iff)
  have f: "setup_of ?b = \<lparr>rtype = 0, request = 5, value_w = 0, index_w = 0, length_w = 0\<rparr>"
    by (simp add: eval_packet)
  have d: "DADDR ?s = 0x85" by (simp add: eval_packet)
  from ctr0_setup_set_address[OF e r] f obtain s1 where
    s1: "ctr0 ?s = Inr s1" "DADDR s1 = DADDR ?s" "pending_address s1 = 0"
      "EPR s1 0 AND USB_EP0R_CTR_RX = 0"
    by auto
  let ?t = "with_tx_complete 0 s1"
  have "EPR ?t 0 AND USB_EP0R_CTR_RX = (EPR s1 0 AND USB_EP0R_CTR_RX) AND 0x8000"
    unfolding with_tx_complete_def usb_bits stat_codes
    apply (simp add: bit_eq_iff bit_and_iff bit_or_iff bit_xor_iff bit_not_iff)
    apply (simp only: all_bits_32)
    apply simp
    done
  then have t1: "EPR ?t 0 AND USB_EP0R_CTR_RX = 0" using s1(4) by simp
  have t2: "EPR ?t 0 AND USB_EP0R_CTR_TX \<noteq> 0"
    unfolding with_tx_complete_def usb_bits stat_codes
    apply (simp add: bit_eq_iff bit_and_iff bit_or_iff bit_xor_iff bit_not_iff)
    apply (rule exI[of _ 7])
    apply simp
    done
  have t3: "pending_address ?t = 0" "DADDR ?t = 0x85"
    using s1 d by (simp_all add: with_tx_complete_def)
  have "ctr0 ?t = Inr (ctr0_tx ?t)" using t1 t2 by (rule ctr0_tx_only)
  moreover have "DADDR (ctr0_tx ?t) = 0x85" using t3 by (simp add: ctr0_tx_address)
  ultimately show ?thesis using s1 by (simp add: usb_bits)
qed


subsection \<open>Enumeration state\<close>







subsection \<open>Refusing to send\<close>

text \<open>
  Claim C7. Unless the device is CONFIGURED and the emulated UART is ENABLED,
  \<open>endpoint_send\<close> returns with the whole device state as it was: nothing is
  transmitted, and no endpoint flag, buffer-table entry or packet-memory word changes.
\<close>

theorem endpoint_send_refused:
  assumes "usb_current_state s \<noteq> CONFIGURED \<or> uart_current_state s \<noteq> ENABLED"
  shows "endpoint_send s ep b cnt = Some s"
  using assms by (auto simp: endpoint_send_def)

theorem endpoint_send_refused_witness:
  "usb_current_state power_on \<noteq> CONFIGURED
   \<and> endpoint_send power_on 1 (cbuf_of [0x41]) 1 = Some power_on"
proof -
  have h: "usb_current_state power_on \<noteq> CONFIGURED"
    by (simp add: power_on_def boot_def)
  from endpoint_send_refused[OF disjI1[OF h]] h show ?thesis by simp
qed

subsection \<open>The control-data consumer\<close>




section \<open>Packet memory and what is transmitted\<close>

lemma copy_out_loop_outside:
  "i < base \<or> base + n \<le> i \<Longrightarrow> copy_out_loop base b n m i = m i"
  by (induction n) auto

lemma copy_out_loop_inside:
  "k < n \<Longrightarrow> copy_out_loop base b n m (base + k) =
     (ucast (b (2 * k)) OR push_bit 8 (ucast (b (2 * k + 1))))"
  by (induction n) (auto simp: less_Suc_eq)

lemma le16_low: "(ucast ((ucast lo OR push_bit 8 (ucast hi)) :: u16) :: u8) = lo" for lo hi :: u8
  by (rule bit_word_eqI) (auto simp add: bit_simps)

lemma le16_high: "(ucast (drop_bit 8 ((ucast lo OR push_bit 8 (ucast hi)) :: u16)) :: u8) = hi" for lo hi :: u8
  by (rule bit_word_eqI) (auto simp add: bit_simps dest: bit_imp_le_length)

lemma widen_low: "(ucast (ucast c :: u16) :: u8) = c" for c :: u8
  by (rule bit_word_eqI) (auto simp add: bit_simps)

lemma widen_high: "(ucast (drop_bit 8 (ucast c :: u16)) :: u8) = 0" for c :: u8
  by (rule bit_word_eqI) (auto simp add: bit_simps dest: bit_imp_le_length)

lemma tx_count_roundtrip:
  assumes "0 \<le> cnt" "cnt \<le> 64"
  shows "unat ((ucast ((ucast (word_of_int cnt :: u32)) :: u16) :: u32) AND 0x3ff) = nat cnt"
proof -
  have m: "(0x3ff :: u32) = mask 10" by (simp add: mask_eq_exp_minus_1)
  have t: "take_bit 7 cnt = cnt" using assms by (simp add: take_bit_int_eq_self)
  define w :: u32 where "w = word_of_int (take_bit 7 cnt)"
  have "(ucast (ucast w :: u16) :: u32) AND mask 10 = w"
    unfolding w_def by (rule bit_word_eqI) (auto simp: bit_simps)
  moreover have "unat w = nat cnt"
    using assms unfolding w_def t
    by (simp add: unat_eq_nat_uint uint_word_of_int take_bit_int_eq_self)
  ultimately show ?thesis unfolding m w_def t by simp
qed

lemma pma_byte_copy_out:
  assumes "i < 2 * n"
  shows "pma_byte (s\<lparr>pma := copy_out_loop base b n m\<rparr>) base i = b i"
proof -
  let ?w = "copy_out_loop base b n m (base + i div 2)"
  have k: "i div 2 < n" using assms by simp
  have w: "?w = (ucast (b (2 * (i div 2))) OR push_bit 8 (ucast (b (2 * (i div 2) + 1))))"
    by (rule copy_out_loop_inside[OF k])
  show ?thesis
  proof (cases "even i")
    case True
    then have e: "2 * (i div 2) = i" by simp
    have "pma_byte (s\<lparr>pma := copy_out_loop base b n m\<rparr>) base i = ucast ?w"
      using True by (simp add: pma_byte_def)
    also have "\<dots> = b (2 * (i div 2))" unfolding w by (rule le16_low)
    finally show ?thesis unfolding e .
  next
    case False
    then have e: "2 * (i div 2) + 1 = i" by (simp add: odd_two_times_div_two_succ)
    have "pma_byte (s\<lparr>pma := copy_out_loop base b n m\<rparr>) base i = ucast (drop_bit 8 ?w)"
      using False by (simp add: pma_byte_def)
    also have "\<dots> = b (2 * (i div 2) + 1)" unfolding w by (rule le16_high)
    finally show ?thesis unfolding e .
  qed
qed

lemma pma_byte_cong:
  "(\<And>j. j < n \<Longrightarrow> pma s' (base + j) = pma s (base + j)) \<Longrightarrow> i < 2 * n \<Longrightarrow>
   pma_byte s' base i = pma_byte s base i"
  by (simp add: pma_byte_def)

text \<open>
  What \<open>usb_endpoint_send\<close> puts up for transmission when the count fits one packet:
  the first \<open>cnt\<close> bytes of the buffer, provided the transmit buffer lies behind the
  endpoint's own buffer-table words.
\<close>

lemma tx_packet_usb_endpoint_send:
  assumes c: "0 \<le> cnt" "cnt \<le> 64"
    and a: "4 * ep + 1 < (2 * unat (bte_tx_addr s ep)) div 4"
  shows "tx_packet (usb_endpoint_send s ep b cnt) ep = map b [0..<nat cnt]"
proof -
  let ?base = "(2 * unat (bte_tx_addr s ep)) div 4"
  let ?n = "nat (c_div (cnt + 1) 2)"
  let ?m = "(pma s)(4 * ep + 1 := ucast (word_of_int cnt :: u32))"
  have n: "?n = nat ((cnt + 1) div 2)" using c by (simp add: c_div_pos)
  have p: "pma (usb_endpoint_send s ep b cnt) = copy_out_loop ?base b ?n ?m"
    using c a
    by (simp add: usb_endpoint_send_def ENDPOINT_LIMIT_def Let_def set_bte_tx_count_def
        pma_copy_out_def bte_tx_addr_def)
  have addr: "bte_tx_addr (usb_endpoint_send s ep b cnt) ep = bte_tx_addr s ep"
    using a unfolding bte_tx_addr_def p
    by (subst copy_out_loop_outside) (auto simp: bte_tx_addr_def)
  have "pma (usb_endpoint_send s ep b cnt) (4 * ep + 1) = ucast (word_of_int cnt :: u32)"
    using a unfolding p by (subst copy_out_loop_outside) auto
  then have cnt: "unat (bte_tx_count (usb_endpoint_send s ep b cnt) ep AND 0x3ff) = nat cnt"
    using tx_count_roundtrip[OF c] by (simp add: bte_tx_count_def)
  have "pma_byte (usb_endpoint_send s ep b cnt) ?base i = b i" if "i < nat cnt" for i
  proof -
    have i: "i < 2 * ?n" using that c unfolding n by linarith
    have "pma_byte (usb_endpoint_send s ep b cnt) ?base i
          = pma_byte (s\<lparr>pma := copy_out_loop ?base b ?n ?m\<rparr>) ?base i"
      by (simp add: pma_byte_def p)
    also have "\<dots> = b i" by (rule pma_byte_copy_out[OF i])
    finally show ?thesis .
  qed
  then show ?thesis
    unfolding tx_packet_def addr cnt by (simp add: map_eq_conv)
qed


subsection \<open>String descriptors\<close>

lemma string_widen_outside:
  "i < 2 \<or> 2 + 2 * n \<le> i \<Longrightarrow> string_widen str n xx i = xx i"
  by (induction n) (auto simp: Let_def)

lemma upt_two_more: "2 \<le> k \<Longrightarrow> [2..<Suc (Suc k)] = [2..<k] @ [k, Suc k]"
  by simp

lemma upt_from_two: "2 \<le> k \<Longrightarrow> [0..<k] = 0 # 1 # [2..<k]"
  by (simp add: upt_conv_Cons numeral_2_eq_2)

lemma string_widen_image:
  "map (string_widen str n xx) [2..<2 + 2 * n] =
     concat (map (\<lambda>c. [c, 0]) (map ((!) str) [0..<n]))"
proof (induction n)
  case 0
  then show ?case by simp
next
  case (Suc n)
  define k where "k = 2 + 2 * n"
  have k2: "2 \<le> k" and e1: "2 + 2 * Suc n = Suc (Suc k)" by (simp_all add: k_def)
  have sw: "string_widen str (Suc n) xx = (string_widen str n xx)(k := str ! n, Suc k := 0)"
    by (simp add: Let_def widen_low widen_high k_def numeral_3_eq_3)
  have old: "map ((string_widen str n xx)(k := str ! n, Suc k := 0)) [2..<k] =
             map (string_widen str n xx) [2..<k]"
    by simp
  have ih: "map (string_widen str n xx) [2..<k] =
            concat (map (\<lambda>c. [c, 0]) (map ((!) str) [0..<n]))"
    using Suc.IH by (simp only: k_def)
  have "map (string_widen str (Suc n) xx) [2..<Suc (Suc k)] =
        map (string_widen str n xx) [2..<k] @ [str ! n, 0]"
    unfolding sw upt_two_more[OF k2] map_append old by simp
  then show ?case unfolding e1 ih by simp
qed

lemma usb_endpoint_send_armed:
  "EPR (usb_endpoint_send s ep b cnt) ep AND USB_EP0R_STAT_TX = STAT_TX_VALID"
  by (simp add: endpoint_set_tx_valid_reaches_VALID)

lemma string_send_language:
  assumes a: "1 < (2 * unat (bte_tx_addr s 0)) div 4"
  shows "\<exists>s'. string_send s 0 = Inr (1, s')
           \<and> tx_packet s' 0 = [4, 3, 0x09, 0x04]
           \<and> EPR s' 0 AND USB_EP0R_STAT_TX = STAT_TX_VALID"
proof -
  let ?s' = "usb_endpoint_send s 0 (cbuf_of my_language_string_desc) 4"
  have send: "string_send s 0 = Inr (1, ?s')"
    by (simp add: string_send_def my_language_string_desc_def)
  have "tx_packet ?s' 0 = map (cbuf_of my_language_string_desc) [0..<nat 4]"
    using a by (intro tx_packet_usb_endpoint_send) simp_all
  also have "\<dots> = [4, 3, 0x09, 0x04]"
    by (simp add: cbuf_of_def my_language_string_desc_def upt_rec eval_nat_numeral)
  finally show ?thesis using send usb_endpoint_send_armed[of s 0] by blast
qed

lemma string_send_packet:
  assumes a: "1 < (2 * unat (bte_tx_addr s 0)) div 4"
    and i: "1 \<le> index" "index \<le> 3"
  shows "\<exists>s'. string_send s index = Inr (3, s')
           \<and> tx_packet s' 0 = string_descriptor (my_strings ! nat index)
           \<and> EPR s' 0 AND USB_EP0R_STAT_TX = STAT_TX_VALID"
proof -
  let ?str = "my_strings ! nat index"
  let ?n = "length ?str"
  let ?xx = "string_widen ?str ?n ((stack s)(0 := of_nat (2 + 2 * ?n), 1 := 3))"
  from i have "index = 1 \<or> index = 2 \<or> index = 3" by auto
  then have len: "?n \<le> 31"
    by (auto simp: my_strings_def c_string_def)
  then have c: "0 \<le> 2 + 2 * int ?n" "2 + 2 * int ?n \<le> 64" by simp_all
  have send: "string_send s index = Inr (3, usb_endpoint_send s 0 ?xx (2 + 2 * int ?n))"
    using i len by (simp add: string_send_def strlen_def Let_def D_STRING_def)
  have "nat (2 + 2 * int ?n) = 2 + 2 * ?n" by simp
  then have u: "[0..<nat (2 + 2 * int ?n)] = 0 # 1 # [2..<2 + 2 * ?n]"
    using upt_from_two[of "2 + 2 * ?n"] by simp
  have hd: "?xx 0 = of_nat (2 + 2 * ?n)" "?xx 1 = 3"
    by (simp_all add: string_widen_outside)
  have "tx_packet (usb_endpoint_send s 0 ?xx (2 + 2 * int ?n)) 0 = map ?xx [0..<nat (2 + 2 * int ?n)]"
    using a by (intro tx_packet_usb_endpoint_send c) simp
  also have "\<dots> = string_descriptor ?str"
    unfolding u string_descriptor_def
    by (simp only: list.map hd string_widen_image map_nth append_Cons append_Nil)
  finally show ?thesis
    using send usb_endpoint_send_armed[of s 0 ?xx "2 + 2 * int ?n"] by blast
qed

text \<open>
  \<open>get_descriptor\<close> splits the request's value into the descriptor type (high byte)
  and the index (low byte); type 3 goes to \<open>string_send\<close> with that index, and the
  value \<open>string_send\<close> returns is the value \<open>get_descriptor\<close> returns.
\<close>

lemma get_descriptor_string:
  assumes "uint (drop_bit 8 (value_w sp)) = D_STRING"
  shows "get_descriptor s sp =
           (case string_send s (uint (value_w sp AND 0xff)) of
              Inl e \<Rightarrow> Inl e
            | Inr (len, s1) \<Rightarrow> Inr (Some len, s1))"
  using assms
  by (simp add: get_descriptor_def Let_def D_DESC_def D_QUAL_def D_CONFIG_def D_STRING_def)

lemma usb_setup_get_descriptor:
  assumes "cnt \<noteq> 0" "tag_of (setup_of b) = 0x8006"
  shows "usb_setup s b cnt = get_descriptor (s\<lparr>cp21_control := NONE\<rparr>) (setup_of b)"
proof -
  have "rtype (setup_of b) \<noteq> 0x21"
  proof
    assume r: "rtype (setup_of b) = 0x21"
    have "bit (tag_of (setup_of b)) 15 = bit (0x8006 :: int) 15" using assms(2) by simp
    then show False
      unfolding tag_of_def r
      by (simp add: bit_or_iff bit_push_bit_iff bit_uint_iff)
  qed
  with assms show ?thesis by (simp add: usb_setup_def Let_def)
qed


lemma pma_set_bte [simp]:
  "pma (set_bte_tx_addr s ep v) = (pma s)(4 * ep := ucast v)"
  "pma (set_bte_tx_count s ep v) = (pma s)(4 * ep + 1 := ucast v)"
  "pma (set_bte_rx_addr s ep v) = (pma s)(4 * ep + 2 := ucast v)"
  "pma (set_bte_rx_count s ep v) = (pma s)(4 * ep + 3 := ucast v)"
  by (simp_all add: set_bte_tx_addr_def set_bte_tx_count_def set_bte_rx_addr_def
      set_bte_rx_count_def)

lemma pma_endpoint_init:
  "pma (endpoint_init s) =
     (pma s)(0 := 64, 1 := 0, 2 := 128, 3 := 0x8400, 4 := 192, 5 := 0, 6 := 256, 7 := 0x8400)"
  by (rule ext)
    (simp add: endpoint_init_def Let_def EP0R_def EP1R_def COUNT_RX_VALUE_def
      EP0R_TX_BUF_INDEX_def EP0R_RX_BUF_INDEX_def EP1R_TX_BUF_INDEX_def EP1R_RX_BUF_INDEX_def)

lemma pma_reset: "pma (reset s) = pma (endpoint_init s)"
  by (simp add: reset_def)

text \<open>
  Claim C8. A GET_DESCRIPTOR request (a non-empty SETUP packet with tag 0x8006) is
  handled by \<open>get_descriptor\<close> on the request as decoded from the packet. For a request
  whose descriptor type (high byte of the value) is String, with the index the low
  byte of the value, and with the transmit buffer of endpoint 0 behind the endpoint's
  buffer-table words (as \<open>endpoint_init\<close> places it): index 0 puts up the 4-byte
  language table for transmission; index 1, 2 or 3 puts up the descriptor of the spec
  for the string of that index (length byte \<open>2 + 2 * strlen\<close>, type 3, every character
  followed by a zero byte); in both cases the TX status of endpoint 0 ends at VALID, so
  that the packet is sent; and every other index ends in the panic "No such string".
\<close>

theorem string_descriptors:
  assumes "1 < (2 * unat (bte_tx_addr s 0)) div 4"
    and "uint (drop_bit 8 (value_w sp)) = D_STRING"
  shows "(let index = uint (value_w sp AND 0xff) in
           (index = 0 \<longrightarrow>
              (\<exists>s'. get_descriptor s sp = Inr (Some 1, s')
                 \<and> tx_packet s' 0 = [4, 3, 0x09, 0x04]
                 \<and> EPR s' 0 AND USB_EP0R_STAT_TX = STAT_TX_VALID))
         \<and> (1 \<le> index \<and> index \<le> 3 \<longrightarrow>
              (\<exists>s'. get_descriptor s sp = Inr (Some 3, s')
                 \<and> tx_packet s' 0 = string_descriptor (my_strings ! nat index)
                 \<and> EPR s' 0 AND USB_EP0R_STAT_TX = STAT_TX_VALID))
         \<and> (3 < index \<longrightarrow> get_descriptor s sp = Inl (Panic ''No such string'')))
       \<and> (cnt \<noteq> 0 \<and> tag_of (setup_of b) = 0x8006 \<longrightarrow>
            usb_setup s0 b cnt = get_descriptor (s0\<lparr>cp21_control := NONE\<rparr>) (setup_of b))"
proof -
  let ?index = "uint (value_w sp AND 0xff)"
  note g = get_descriptor_string[OF assms(2), of s]
  have zero: "\<exists>s'. get_descriptor s sp = Inr (Some 1, s')
                 \<and> tx_packet s' 0 = [4, 3, 0x09, 0x04]
                 \<and> EPR s' 0 AND USB_EP0R_STAT_TX = STAT_TX_VALID" if "?index = 0"
    using string_send_language[OF assms(1)] unfolding g that by auto
  have some: "\<exists>s'. get_descriptor s sp = Inr (Some 3, s')
                 \<and> tx_packet s' 0 = string_descriptor (my_strings ! nat ?index)
                 \<and> EPR s' 0 AND USB_EP0R_STAT_TX = STAT_TX_VALID"
    if "1 \<le> ?index" "?index \<le> 3"
    using string_send_packet[OF assms(1) that] unfolding g by auto
  have other: "get_descriptor s sp = Inl (Panic ''No such string'')" if "3 < ?index"
    unfolding g using that by (simp add: string_send_def)
  have disp: "usb_setup s0 b cnt = get_descriptor (s0\<lparr>cp21_control := NONE\<rparr>) (setup_of b)"
    if "cnt \<noteq> 0" "tag_of (setup_of b) = 0x8006"
    using that by (rule usb_setup_get_descriptor)
  from zero some other disp show ?thesis unfolding Let_def by blast
qed

theorem string_descriptors_witness:
  "(let r = reset power_on;
        s = r\<lparr>cp21_control := NONE\<rparr>;
        b = cbuf_of [0x80, 0x06, 3, 3, 0x09, 0x04, 0xff, 0];
        b' = cbuf_of [0x80, 0x06, 4, 3, 0x09, 0x04, 0xff, 0];
        b'' = cbuf_of [0x80, 0x06, 0, 3, 0, 0, 0xff, 0]
    in 1 < (2 * unat (bte_tx_addr s 0)) div 4
     \<and> uint (drop_bit 8 (value_w (setup_of b))) = D_STRING
     \<and> uint (value_w (setup_of b) AND 0xff) = 3
     \<and> (8::int) \<noteq> 0 \<and> tag_of (setup_of b) = 0x8006
     \<and> (\<exists>s'. usb_setup r b 8 = Inr (Some 3, s')
            \<and> tx_packet s' 0 = [10, 3, 0x31, 0, 0x32, 0, 0x33, 0, 0x34, 0]
            \<and> EPR s' 0 AND USB_EP0R_STAT_TX = STAT_TX_VALID)
     \<and> uint (drop_bit 8 (value_w (setup_of b'))) = D_STRING
     \<and> 3 < uint (value_w (setup_of b') AND 0xff)
     \<and> tag_of (setup_of b') = 0x8006
     \<and> usb_setup r b' 8 = Inl (Panic ''No such string'')
     \<and> uint (drop_bit 8 (value_w (setup_of b''))) = D_STRING
     \<and> uint (value_w (setup_of b'') AND 0xff) = 0
     \<and> tag_of (setup_of b'') = 0x8006
     \<and> (\<exists>s'. usb_setup r b'' 8 = Inr (Some 1, s')
            \<and> tx_packet s' 0 = [4, 3, 0x09, 0x04]
            \<and> EPR s' 0 AND USB_EP0R_STAT_TX = STAT_TX_VALID))"
proof -
  let ?r = "reset power_on"
  let ?s = "?r\<lparr>cp21_control := NONE\<rparr>"
  let ?b = "cbuf_of [0x80, 0x06, 3, 3, 0x09, 0x04, 0xff, 0]"
  let ?b' = "cbuf_of [0x80, 0x06, 4, 3, 0x09, 0x04, 0xff, 0]"
  let ?b'' = "cbuf_of [0x80, 0x06, 0, 3, 0, 0, 0xff, 0]"
  have a: "1 < (2 * unat (bte_tx_addr ?s 0)) div 4"
    by (simp add: bte_tx_addr_def pma_reset pma_endpoint_init)
  have f: "setup_of ?b = \<lparr>rtype = 0x80, request = 6, value_w = 0x303, index_w = 0x409, length_w = 0xff\<rparr>"
    "setup_of ?b' = \<lparr>rtype = 0x80, request = 6, value_w = 0x304, index_w = 0x409, length_w = 0xff\<rparr>"
    "setup_of ?b'' = \<lparr>rtype = 0x80, request = 6, value_w = 0x300, index_w = 0, length_w = 0xff\<rparr>"
    by (simp_all add: setup_of_def cbuf_of_def le16_def)
  have t: "uint (drop_bit 8 (value_w (setup_of ?b))) = D_STRING"
    "uint (drop_bit 8 (value_w (setup_of ?b'))) = D_STRING"
    "uint (drop_bit 8 (value_w (setup_of ?b''))) = D_STRING"
    unfolding f by (simp_all add: D_STRING_def)
  have i: "uint (value_w (setup_of ?b) AND 0xff) = 3" "3 < uint (value_w (setup_of ?b') AND 0xff)"
    "uint (value_w (setup_of ?b'') AND 0xff) = 0"
    unfolding f by simp_all
  have g: "tag_of (setup_of ?b) = 0x8006" "tag_of (setup_of ?b') = 0x8006"
    "tag_of (setup_of ?b'') = 0x8006"
    unfolding f by (simp_all add: tag_of_def)
  have n: "(8::int) \<noteq> 0" by simp
  have d: "string_descriptor (my_strings ! nat 3) = [10, 3, 0x31, 0, 0x32, 0, 0x33, 0, 0x34, 0]"
    by (simp add: string_descriptor_def my_strings_def c_string_def eval_nat_numeral)
  from string_descriptors[OF a t(1), of 8 ?b ?r] i(1) g(1) n d
  have one: "\<exists>s'. usb_setup ?r ?b 8 = Inr (Some 3, s')
            \<and> tx_packet s' 0 = [10, 3, 0x31, 0, 0x32, 0, 0x33, 0, 0x34, 0]
            \<and> EPR s' 0 AND USB_EP0R_STAT_TX = STAT_TX_VALID"
    unfolding Let_def by simp
  from string_descriptors[OF a t(2), of 8 ?b' ?r] i(2) g(2) n
  have two: "usb_setup ?r ?b' 8 = Inl (Panic ''No such string'')"
    unfolding Let_def by simp
  from string_descriptors[OF a t(3), of 8 ?b'' ?r] i(3) g(3) n
  have three: "\<exists>s'. usb_setup ?r ?b'' 8 = Inr (Some 1, s')
            \<and> tx_packet s' 0 = [4, 3, 0x09, 0x04]
            \<and> EPR s' 0 AND USB_EP0R_STAT_TX = STAT_TX_VALID"
    unfolding Let_def by simp
  from a t i g n one two three show ?thesis unfolding Let_def by blast
qed
section \<open>Bulk reception\<close>

lemma copy_in_loop_byte:
  "i < 2 * n \<Longrightarrow>
   copy_in_loop base m n b i =
     (if even i then ucast (m (base + i div 2)) else ucast (drop_bit 8 (m (base + i div 2))))"
proof (induction n)
  case 0
  then show ?case by simp
next
  case (Suc n)
  consider "i < 2 * n" | "i = 2 * n" | "i = 2 * n + 1"
    using Suc.prems by atomize_elim arith
  then show ?case
  proof cases
    case 1
    with Suc.IH show ?thesis by simp
  next
    case 2
    then show ?thesis by simp
  next
    case 3
    then show ?thesis by simp
  qed
qed

lemma pma_copy_in_packet:
  "map (pma_copy_in s (bte_rx_addr s ep) b (uint (bte_rx_count s ep AND 0x3ff)))
     [0..<nat (uint (bte_rx_count s ep AND 0x3ff))] = rx_packet s ep"
proof -
  let ?c = "uint (bte_rx_count s ep AND 0x3ff)"
  have c: "0 \<le> ?c" by simp
  have n: "nat (c_div (?c + 1) 2) = nat ((?c + 1) div 2)" using c by (simp add: c_div_pos)
  have i: "i < 2 * nat ((?c + 1) div 2)" if "i < nat ?c" for i
    using that by linarith
  have u: "unat (bte_rx_count s ep AND 0x3ff) = nat ?c" by (rule unat_eq_nat_uint)
  show ?thesis
    unfolding rx_packet_def pma_copy_in_def Let_def n u
    by (rule map_cong[OF refl]) (simp add: copy_in_loop_byte i pma_byte_def)
qed

lemma data_ctr_enqueue_wf:
  assumes "cq_wf q"
  shows "cq_wf (data_ctr_enqueue q xs)
       \<and> cq_contents (data_ctr_enqueue q xs) = cq_contents q @ take (nat (cq_space q)) xs
       \<and> toss (data_ctr_enqueue q xs) = toss q
       \<and> size_q (data_ctr_enqueue q xs) = size_q q
       \<and> count (data_ctr_enqueue q xs) = min (size_q q) (count q + int (length xs))"
  using assms
proof (induction xs arbitrary: q)
  case Nil
  then show ?case by (simp add: cq_wf_def)
next
  case (Cons x xs)
  show ?case
  proof (cases "count q < size_q q")
    case True
    note f = cq_add_fields[OF Cons.prems True, of "uint x"]
    have wf: "cq_wf (cq_add q (uint x))" by (rule cq_add_wf[OF Cons.prems True])
    have "nat (size_q q - count q) = Suc (nat (size_q q - (count q + 1)))"
      using True by linarith
    then have tk: "take (nat (cq_space q)) (x # xs) = x # take (nat (size_q q - (count q + 1))) xs"
      by (simp add: cq_space_def)
    from Cons.IH[OF wf] True show ?thesis
      unfolding data_ctr_enqueue.simps tk
      by (simp add: cq_space_def f cq_add_contents[OF Cons.prems True])
  next
    case False
    then have eq: "count q = size_q q" using Cons.prems by (simp add: cq_wf_def)
    from Cons.IH[OF Cons.prems] show ?thesis
      by (simp add: cq_space_def eq)
  qed
qed

lemma data_ctr_rx_result:
  assumes tx: "EPR s ep AND USB_EP0R_CTR_TX = 0" and rx: "EPR s ep AND USB_EP0R_CTR_RX \<noteq> 0"
    and len: "length (rx_packet s ep) \<le> 64"
  shows "data_ctr s ep =
           Inr (endpoint_recv_ready
                  ((endpoint_clear_rx s ep)
                     \<lparr>in_queue := data_ctr_enqueue (in_queue s) (rx_packet s ep)\<rparr>) ep)"
proof -
  let ?s1 = "endpoint_clear_rx s ep"
  let ?c = "uint (bte_rx_count s ep AND 0x3ff)"
  have b: "bte_rx_count ?s1 ep = bte_rx_count s ep" "bte_rx_addr ?s1 ep = bte_rx_addr s ep"
    by (simp_all add: bte_rx_count_def bte_rx_addr_def)
  have "unat (bte_rx_count s ep AND 0x3ff) \<le> 64" using len by (simp add: rx_packet_def)
  moreover have "?c = int (unat (bte_rx_count s ep AND 0x3ff))" by (rule uint_nat)
  ultimately have c: "?c \<le> 64" by linarith
  have p: "map (pma_copy_in ?s1 (bte_rx_addr s ep) (stack s) ?c)
             [0..<unat (bte_rx_count s ep AND 0x3ff)] = rx_packet s ep"
    using pma_copy_in_packet[of s ep "stack s"] by (simp add: pma_copy_in_def)
  show ?thesis
    using tx rx c by (simp add: data_ctr_def Let_def b p)
qed

lemma data_ctr_rx:
  assumes tx: "EPR s ep AND USB_EP0R_CTR_TX = 0" and rx: "EPR s ep AND USB_EP0R_CTR_RX \<noteq> 0"
    and wf: "cq_wf (in_queue s)" and len: "length (rx_packet s ep) \<le> 64"
  shows "\<exists>s'. data_ctr s ep = Inr s'
           \<and> cq_contents (in_queue s') =
               cq_contents (in_queue s) @ take (nat (cq_space (in_queue s))) (rx_packet s ep)
           \<and> toss (in_queue s') = toss (in_queue s)"
  using data_ctr_rx_result[OF tx rx len] data_ctr_enqueue_wf[OF wf, of "rx_packet s ep"]
  by simp

text \<open>
  Claim C9, as the code has it. On a receive-complete interrupt of a data endpoint
  (no transmit completion alongside, a packet of at most 64 bytes, the queue in the
  shape \<open>cq_init\<close> gives it) the bytes of the packet are appended to the queue in
  order for as long as there is space; the bytes beyond that are dropped, and the toss
  counter stays as it was, because \<open>data_ctr\<close> calls \<open>cq_add\<close> only under
  \<open>cq_space > 0\<close>.
\<close>

theorem bulk_receive_enqueues:
  assumes "EPR s ep AND USB_EP0R_CTR_TX = 0" and "EPR s ep AND USB_EP0R_CTR_RX \<noteq> 0"
    and "cq_wf (in_queue s)" and "length (rx_packet s ep) \<le> 64"
  shows "\<exists>s'. data_ctr s ep = Inr s'
           \<and> cq_contents (in_queue s') =
               cq_contents (in_queue s) @ take (nat (cq_space (in_queue s))) (rx_packet s ep)
           \<and> toss (in_queue s') = toss (in_queue s)"
  using assms by (rule data_ctr_rx)

lemma rx_count_roundtrip:
  assumes "n \<le> 64"
  shows "unat ((ucast ((0x8400 :: u16) OR of_nat n) :: u32) AND 0x3ff) = n"
proof -
  have m: "(0x3ff :: u32) = mask 10" by (simp add: mask_eq_exp_minus_1)
  have h: "(0x8400 :: u16) = push_bit 10 33" by simp
  have t: "take_bit 7 n = n" using assms by (simp add: take_bit_nat_eq_self)
  have g: "(ucast (push_bit 10 x OR of_nat (take_bit 7 n) :: u16) :: u32) AND mask 10
           = of_nat (take_bit 7 n)" for x
    by (rule bit_word_eqI) (auto simp: bit_simps)
  have "unat (of_nat n :: u32) = n"
    using assms by (simp add: unat_of_nat)
  then show ?thesis unfolding m h using g[of 33] unfolding t by simp
qed

lemma rx_packet_with_bulk_packet:
  assumes "length pkt \<le> 64"
  shows "rx_packet (with_bulk_packet pkt s) 1 = pkt"
proof -
  let ?n = "(length pkt + 1) div 2"
  let ?m = "(pma s)(6 := 256, 7 := 0x8400 OR of_nat (length pkt))"
  let ?s = "with_bulk_packet pkt s"
  have p: "pma ?s = copy_out_loop 128 (cbuf_of pkt) ?n ?m"
    by (simp add: with_bulk_packet_def)
  have a: "bte_rx_addr ?s 1 = 256"
    unfolding bte_rx_addr_def p by (subst copy_out_loop_outside) simp_all
  have "bte_rx_count ?s 1 = ucast ((0x8400 :: u16) OR of_nat (length pkt))"
    unfolding bte_rx_count_def p by (subst copy_out_loop_outside) simp_all
  moreover have "unat ((ucast ((0x8400 :: u16) OR of_nat (length pkt)) :: u32) AND 0x3ff) = length pkt"
    using assms by (rule rx_count_roundtrip)
  ultimately have c: "unat (bte_rx_count ?s 1 AND 0x3ff) = length pkt" by simp
  have "pma_byte ?s 128 i = pkt ! i" if "i < length pkt" for i
  proof -
    have i: "i < 2 * ?n" using that by linarith
    have "pma_byte ?s 128 i = pma_byte (s\<lparr>pma := copy_out_loop 128 (cbuf_of pkt) ?n ?m\<rparr>) 128 i"
      by (simp add: pma_byte_def p)
    also have "\<dots> = cbuf_of pkt i" by (rule pma_byte_copy_out[OF i])
    finally show ?thesis using that by (simp add: cbuf_of_def)
  qed
  note byte = this
  have base: "(2 * unat (bte_rx_addr ?s 1)) div 4 = 128" unfolding a by simp
  show ?thesis
    unfolding rx_packet_def base c by (rule nth_equalityI) (simp_all add: byte)
qed


lemma with_bulk_packet_fields [simp]:
  "EPR (with_bulk_packet pkt s) (Suc 0) = 0xA021"
  "in_queue (with_bulk_packet pkt s) = in_queue s"
  by (simp_all add: with_bulk_packet_def)

theorem bulk_receive_enqueues_witness:
  "(let s = with_bulk_packet [0x68, 0x69] (usb_init power_on)
    in EPR s 1 AND USB_EP0R_CTR_TX = 0 \<and> EPR s 1 AND USB_EP0R_CTR_RX \<noteq> 0
       \<and> cq_wf (in_queue s) \<and> rx_packet s 1 = [0x68, 0x69]
       \<and> (\<exists>s'. data_ctr s 1 = Inr s'
              \<and> cq_contents (in_queue s') = [0x68, 0x69]
              \<and> toss (in_queue s') = 0))"
proof -
  let ?s = "with_bulk_packet [0x68, 0x69] (usb_init power_on)"
  have q: "in_queue ?s = cq_init (replicate 256 0) 256"
    by (simp add: usb_init_def Let_def IN_BUF_SIZE_def)
  have e: "EPR ?s 1 AND USB_EP0R_CTR_TX = 0" "EPR ?s 1 AND USB_EP0R_CTR_RX \<noteq> 0"
    by (simp_all add: usb_bits)
  have wf: "cq_wf (in_queue ?s)" unfolding q by (rule cq_wf_init) simp_all
  have r: "rx_packet ?s 1 = [0x68, 0x69]" by (rule rx_packet_with_bulk_packet) simp
  then have l: "length (rx_packet ?s 1) \<le> 64" by simp
  have v: "cq_contents (in_queue ?s) = []" "cq_space (in_queue ?s) = 256" "toss (in_queue ?s) = 0"
    unfolding q cq_contents_init by (simp_all add: cq_space_def cq_init_def)
  from bulk_receive_enqueues[OF e wf l] e wf r v show ?thesis
    unfolding Let_def by simp
qed

text \<open>
  Claim C9 as stated fails on the toss counter: a byte that arrives on endpoint 1
  while the 256-byte queue is full is dropped, and the toss counter is still 0.
\<close>

theorem bulk_overflow_not_counted:
  "(let s = with_bulk_packet [0x41]
              (power_on\<lparr>in_queue := (cq_init (replicate 256 0) 256)\<lparr>count := 256\<rparr>\<rparr>)
    in cq_space (in_queue s) = 0 \<and> rx_packet s 1 = [0x41] \<and> toss (in_queue s) = 0
       \<and> (case data_ctr s 1 of
             Inl e \<Rightarrow> False
           | Inr s' \<Rightarrow> count (in_queue s') = 256 \<and> toss (in_queue s') = 0
                       \<and> toss (in_queue s') \<noteq> toss (in_queue s) + 1))"
proof -
  let ?q = "(cq_init (replicate 256 0) 256)\<lparr>count := 256\<rparr>"
  let ?s = "with_bulk_packet [0x41] (power_on\<lparr>in_queue := ?q\<rparr>)"
  have q: "in_queue ?s = ?q" by simp
  have e: "EPR ?s 1 AND USB_EP0R_CTR_TX = 0" "EPR ?s 1 AND USB_EP0R_CTR_RX \<noteq> 0"
    by (simp_all add: usb_bits)
  have wf: "cq_wf (in_queue ?s)" unfolding q by (simp add: cq_wf_def cq_init_def)
  have r: "rx_packet ?s 1 = [0x41]" by (rule rx_packet_with_bulk_packet) simp
  then have l: "length (rx_packet ?s 1) \<le> 64" by simp
  have v: "cq_space (in_queue ?s) = 0" "toss (in_queue ?s) = 0" "count (in_queue ?s) = 256"
    "size_q (in_queue ?s) = 256"
    unfolding q by (simp_all add: cq_space_def cq_init_def)
  have "data_ctr_enqueue ?q [0x41] = ?q"
    by (simp add: cq_space_def cq_init_def)
  then have "data_ctr ?s 1 =
        Inr (endpoint_recv_ready ((endpoint_clear_rx ?s 1)\<lparr>in_queue := ?q\<rparr>) 1)"
    using data_ctr_rx_result[OF e l] r q by simp
  then show ?thesis using v r unfolding Let_def by (simp add: cq_init_def)
qed

section \<open>Oversized sends\<close>

lemma tx_busy_wait_idle:
  "flags (ep_info s ep) AND F_TX_BUSY = 0 \<Longrightarrow> tx_busy_wait s ep = Some s"
  by (subst tx_busy_wait.simps) simp

lemma endpoint_send_starts:
  assumes "usb_current_state s = CONFIGURED" "uart_current_state s = ENABLED"
    and "flags (ep_info s ep) AND F_TX_BUSY = 0"
  shows "endpoint_send s ep b cnt =
           Some (usb_endpoint_send (set_flags s ep (flags (ep_info s ep) OR F_TX_BUSY)) ep b cnt)"
  using assms by (simp add: endpoint_send_def tx_busy_wait_idle Let_def)

lemma ep_info_set_flags [simp]:
  "flags (ep_info (set_flags s ep f) ep') = (if ep' = ep then f else flags (ep_info s ep'))"
  by (simp add: set_flags_def)

text \<open>
  A send of more than 64 bytes: the first 64 bytes are put up for transmission, the
  rest is recorded in \<open>tx_rem\<close>, \<open>tx_rem_count\<close> and the flag \<open>F_TX_REM\<close>.
\<close>

lemma usb_endpoint_send_long:
  assumes c: "64 < cnt"
  shows "tx_rem_count (usb_endpoint_send s ep b cnt) = cnt - 64"
    and "tx_rem (usb_endpoint_send s ep b cnt) = cbuf_at b 64"
    and "flags (ep_info (usb_endpoint_send s ep b cnt) ep) = flags (ep_info s ep) OR F_TX_REM"
  using c by (simp_all add: usb_endpoint_send_def ENDPOINT_LIMIT_def Let_def)

lemma tx_packet_usb_endpoint_send_long:
  assumes c: "64 < cnt"
    and a: "4 * ep + 1 < (2 * unat (bte_tx_addr s ep)) div 4"
  shows "tx_packet (usb_endpoint_send s ep b cnt) ep = map b [0..<64]"
proof -
  let ?base = "(2 * unat (bte_tx_addr s ep)) div 4"
  let ?m = "(pma s)(4 * ep + 1 := ucast (word_of_int 64 :: u32))"
  have n: "nat (c_div (64 + 1) 2) = 32" by (simp add: c_div_pos)
  have p: "pma (usb_endpoint_send s ep b cnt) = copy_out_loop ?base b 32 ?m"
    using c a
    by (simp add: usb_endpoint_send_def ENDPOINT_LIMIT_def Let_def set_bte_tx_count_def
        pma_copy_out_def bte_tx_addr_def set_flags_def c_div_pos)
  have addr: "bte_tx_addr (usb_endpoint_send s ep b cnt) ep = bte_tx_addr s ep"
    using a unfolding bte_tx_addr_def p
    by (subst copy_out_loop_outside) (auto simp: bte_tx_addr_def)
  have "pma (usb_endpoint_send s ep b cnt) (4 * ep + 1) = ucast (word_of_int 64 :: u32)"
    using a unfolding p by (subst copy_out_loop_outside) auto
  then have cnt: "unat (bte_tx_count (usb_endpoint_send s ep b cnt) ep AND 0x3ff) = 64"
    using tx_count_roundtrip[of 64] by (simp add: bte_tx_count_def)
  have "pma_byte (usb_endpoint_send s ep b cnt) ?base i = b i" if "i < 64" for i
  proof -
    have i: "i < 2 * 32" using that by simp
    have "pma_byte (usb_endpoint_send s ep b cnt) ?base i
          = pma_byte (s\<lparr>pma := copy_out_loop ?base b 32 ?m\<rparr>) ?base i"
      by (simp add: pma_byte_def p)
    also have "\<dots> = b i" by (rule pma_byte_copy_out[OF i])
    finally show ?thesis .
  qed
  then show ?thesis
    unfolding tx_packet_def addr cnt by (simp add: map_eq_conv)
qed

text \<open>
  The transmit-complete branch of \<open>data_ctr\<close> acknowledges the transfer and clears
  \<open>F_TX_BUSY\<close>, and that is all: packet memory, the TX status, \<open>F_TX_REM\<close> and the
  recorded remainder are as before. \<open>ctr0_tx\<close>, the same branch for endpoint 0, goes on
  to \<open>endpoint_rem\<close> when \<open>F_TX_REM\<close> is set.
\<close>

lemma data_ctr_tx:
  assumes "EPR s ep AND USB_EP0R_CTR_TX \<noteq> 0"
  shows "data_ctr s ep =
           Inr (set_flags (endpoint_clear_tx s ep) ep (flags (ep_info s ep) AND NOT F_TX_BUSY))"
  using assms by (simp add: data_ctr_def Let_def)

lemma clear_tx_keeps_STAT_TX:
  "epr_hw_write v (endpoint_clear_tx_val v) AND USB_EP0R_STAT_TX = v AND USB_EP0R_STAT_TX"
  unfolding epr_hw_write_def endpoint_vals usb_bits ep_toggles Let_def
  apply (simp add: bit_eq_iff bit_and_iff bit_or_iff bit_xor_iff bit_not_iff)
  apply (simp only: all_bits_32)
  apply simp
  done

lemma data_ctr_tx_effect:
  assumes "EPR s ep AND USB_EP0R_CTR_TX \<noteq> 0"
  shows "\<exists>s'. data_ctr s ep = Inr s' \<and> pma s' = pma s
           \<and> tx_rem_count s' = tx_rem_count s
           \<and> flags (ep_info s' ep) = flags (ep_info s ep) AND NOT F_TX_BUSY
           \<and> EPR s' ep AND USB_EP0R_STAT_TX = EPR s ep AND USB_EP0R_STAT_TX"
  using data_ctr_tx[OF assms] by (simp add: clear_tx_keeps_STAT_TX)

lemma ctr0_tx_continues:
  assumes "pending_address t = 0" "flags (ep_info t 0) AND F_TX_REM \<noteq> 0"
  shows "ctr0_tx t = endpoint_rem (endpoint_clear_tx t 0) 0"
  using assms by (simp add: ctr0_tx_def Let_def EP0R_def)

lemma endpoint_rem_effect:
  "EPR (endpoint_rem s ep) ep AND USB_EP0R_STAT_TX = STAT_TX_VALID"
  "tx_rem_count (endpoint_rem s ep) = tx_rem_count s"
  by (simp_all add: endpoint_set_tx_valid_reaches_VALID)

lemma with_tx_complete_EPR:
  "EPR (with_tx_complete ep s) ep AND USB_EP0R_CTR_TX \<noteq> 0"
  "EPR (with_tx_complete ep s) ep AND USB_EP0R_STAT_TX = STAT_TX_NAK"
proof -
  show "EPR (with_tx_complete ep s) ep AND USB_EP0R_CTR_TX \<noteq> 0"
    unfolding with_tx_complete_def usb_bits stat_codes
    apply (simp add: bit_eq_iff bit_and_iff bit_or_iff bit_xor_iff bit_not_iff)
    apply (rule exI[of _ 7])
    apply simp
    done
  show "EPR (with_tx_complete ep s) ep AND USB_EP0R_STAT_TX = STAT_TX_NAK"
    unfolding with_tx_complete_def usb_bits stat_codes
    apply (simp add: bit_eq_iff bit_and_iff bit_or_iff bit_xor_iff bit_not_iff)
    apply (simp only: all_bits_32)
    apply simp
    done
qed

lemma with_tx_complete_keeps [simp]:
  "pma (with_tx_complete ep s) = pma s"
  "ep_info (with_tx_complete ep s) = ep_info s"
  "tx_rem_count (with_tx_complete ep s) = tx_rem_count s"
  by (simp_all add: with_tx_complete_def)

lemma ep_info_endpoint_init:
  "flags (ep_info (endpoint_init s) 0) = 0" "flags (ep_info (endpoint_init s) (Suc 0)) = 0"
  by (simp_all add: endpoint_init_def Let_def EP0R_def EP1R_def)


lemma tx_packet_pma: "pma s' = pma s \<Longrightarrow> tx_packet s' ep = tx_packet s ep"
  by (simp add: tx_packet_def bte_tx_addr_def bte_tx_count_def pma_byte_def)

text \<open>
  Claim C4, at a send of 70 bytes on the bulk endpoint of a configured, enabled device
  (buffer table as \<open>reset\<close> leaves it). \<open>endpoint_send\<close> puts up the first 64 bytes and
  records 6 remaining bytes with \<open>F_TX_REM\<close>. After the transmit-complete interrupt of
  endpoint 1, \<open>data_ctr\<close> has cleared \<open>F_TX_BUSY\<close> and nothing else: the transmit buffer
  still holds the first 64 bytes, the TX status is NAK (nothing is armed), and the 6
  bytes are still recorded as pending.
\<close>

theorem bulk_continuation_dropped:
  "(let s0 = (reset power_on)\<lparr>usb_current_state := CONFIGURED, uart_current_state := ENABLED\<rparr>;
        b = cbuf_of (replicate 64 0x41 @ [0x42, 0x43, 0x44, 0x45, 0x46, 0x47])
    in case endpoint_send s0 1 b 70 of
         None \<Rightarrow> False
       | Some s1 \<Rightarrow>
           tx_packet s1 1 = replicate 64 0x41 \<and> tx_rem_count s1 = 6
           \<and> flags (ep_info s1 1) AND F_TX_REM \<noteq> 0
           \<and> (case data_ctr (with_tx_complete 1 s1) 1 of
                 Inl e \<Rightarrow> False
               | Inr s2 \<Rightarrow>
                   tx_packet s2 1 = replicate 64 0x41
                   \<and> EPR s2 1 AND USB_EP0R_STAT_TX = STAT_TX_NAK
                   \<and> tx_rem_count s2 = 6
                   \<and> flags (ep_info s2 1) AND F_TX_REM \<noteq> 0
                   \<and> flags (ep_info s2 1) AND F_TX_BUSY = 0))"
proof -
  let ?s0 = "(reset power_on)\<lparr>usb_current_state := CONFIGURED, uart_current_state := ENABLED\<rparr>"
  let ?b = "cbuf_of (replicate 64 0x41 @ [0x42, 0x43, 0x44, 0x45, 0x46, 0x47])"
  let ?f = "set_flags ?s0 1 (flags (ep_info ?s0 1) OR F_TX_BUSY)"
  let ?s1 = "usb_endpoint_send ?f 1 ?b 70"
  let ?t = "with_tx_complete 1 ?s1"
  have fl: "flags (ep_info ?s0 1) = 0"
    by (simp add: reset_def set_address_def ep_info_endpoint_init)
  have st: "usb_current_state ?s0 = CONFIGURED" "uart_current_state ?s0 = ENABLED"
    "flags (ep_info ?s0 1) AND F_TX_BUSY = 0"
    using fl by simp_all
  have send: "endpoint_send ?s0 1 ?b 70 = Some ?s1"
    by (rule endpoint_send_starts[OF st])
  have "bte_tx_addr ?f 1 = 192"
    by (simp add: bte_tx_addr_def pma_reset pma_endpoint_init)
  then have a: "4 * 1 + 1 < (2 * unat (bte_tx_addr ?f 1)) div 4" by simp
  have "map ?b [0..<64] = replicate 64 0x41"
    by (rule nth_equalityI) (simp_all add: cbuf_of_def nth_append)
  with tx_packet_usb_endpoint_send_long[OF _ a, of 70 ?b]
  have p1: "tx_packet ?s1 1 = replicate 64 0x41" by simp
  have r1: "tx_rem_count ?s1 = 6" "flags (ep_info ?s1 1) = 0x82"
    using usb_endpoint_send_long[of 70 ?f 1 ?b] fl
    by (simp_all add: F_TX_BUSY_def F_TX_REM_def)
  from data_ctr_tx_effect[OF with_tx_complete_EPR(1), of 1 ?s1] obtain s2 where
    s2: "data_ctr ?t 1 = Inr s2" "pma s2 = pma ?t" "tx_rem_count s2 = tx_rem_count ?t"
      "flags (ep_info s2 1) = flags (ep_info ?t 1) AND NOT F_TX_BUSY"
      "EPR s2 1 AND USB_EP0R_STAT_TX = EPR ?t 1 AND USB_EP0R_STAT_TX"
    by blast
  have p2: "tx_packet s2 1 = replicate 64 0x41"
    using tx_packet_pma[of s2 ?s1 1] s2(2) p1 by simp
  have f2: "flags (ep_info s2 1) = 0x80"
    using s2(4) r1(2) by (simp add: F_TX_BUSY_def)
  have e2: "EPR s2 1 AND USB_EP0R_STAT_TX = STAT_TX_NAK"
    using s2(5) with_tx_complete_EPR(2)[of 1 ?s1] by simp
  have t2: "tx_rem_count s2 = 6" using s2(3) r1(1) by simp
  show ?thesis
    unfolding Let_def send option.case s2(1) sum.case
    using p1 r1 p2 f2 e2 t2 by (simp add: F_TX_REM_def F_TX_BUSY_def)
qed


end
